theory Spec2Isabelle
  imports Main
begin

section \<open>Values shared by the event manager\<close>

text \<open>
  Go strings are byte sequences, modelled as \<open>string\<close> (a list of 8-bit characters).
  A Go \<open>error\<close> value is an \<open>error\<close>; a Go \<open>panic\<close> is a value of type \<open>panic\<close>, and
  an operation that may panic returns an \<open>outcome\<close>: either \<open>Panicked p\<close> or the value
  it returns normally.
\<close>

datatype error = Error string

datatype panic =
    EmptyName            \<comment> \<open>"event: the event name cannot be empty"\<close>
  | InvalidName          \<comment> \<open>"event: the event name is invalid, must match regex ..."\<close>
  | NilListener string   \<comment> \<open>"event: the event '<name>' listener cannot be empty"\<close>
  | PanicErr error       \<comment> \<open>\<open>panic(err)\<close> of \<open>MustFire\<close>\<close>
  | ListenerPanic string \<comment> \<open>a panic raised inside a listener's \<open>Handle\<close>\<close>

datatype 'a outcome = Panicked panic | Returned 'a

text \<open>Payload values (\<open>interface{}\<close>) and the payload mapping \<open>M\<close>.\<close>

datatype any = ANil | AInt int | AStr string | ABool bool

type_synonym M = "string \<rightharpoonup> any"

section \<open>Name validation: \<open>goodName\<close> (manager.go)\<close>

text \<open>
  \<open>strings.TrimSpace\<close> of the Go standard library removes leading and trailing Unicode
  white space. On the UTF-8 bytes of a string these are the six ASCII characters
  tab, line feed, vertical tab, form feed, carriage return and space, the two-byte
  encodings of U+0085 and U+00A0, and the three-byte encodings of U+1680,
  U+2000..U+200A, U+2028, U+2029, U+202F, U+205F and U+3000. \<open>spaceWidth\<close> is the
  number of bytes of the white-space character a byte list starts with (0 when it starts
  with none); \<open>spaceWidthRev\<close> is the same for the end of a string, read on the reversed
  byte list.
\<close>

definition asciiSpace :: "nat \<Rightarrow> bool" where
  "asciiSpace b = (b = 9 \<or> b = 10 \<or> b = 11 \<or> b = 12 \<or> b = 13 \<or> b = 32)"

definition space2 :: "nat \<Rightarrow> nat \<Rightarrow> bool" where
  "space2 a b = (a = 194 \<and> (b = 133 \<or> b = 160))"

definition space3 :: "nat \<Rightarrow> nat \<Rightarrow> nat \<Rightarrow> bool" where
  "space3 a b c =
     ((a = 225 \<and> b = 154 \<and> c = 128) \<or>
      (a = 226 \<and> b = 128 \<and> ((128 \<le> c \<and> c \<le> 138) \<or> c = 168 \<or> c = 169 \<or> c = 175)) \<or>
      (a = 226 \<and> b = 129 \<and> c = 159) \<or>
      (a = 227 \<and> b = 128 \<and> c = 128))"

fun spaceWidth :: "nat list \<Rightarrow> nat" where
  "spaceWidth [] = 0"
| "spaceWidth [a] = (if asciiSpace a then 1 else 0)"
| "spaceWidth [a, b] = (if asciiSpace a then 1 else if space2 a b then 2 else 0)"
| "spaceWidth (a # b # c # rest) =
     (if asciiSpace a then 1 else if space2 a b then 2 else if space3 a b c then 3 else 0)"

fun spaceWidthRev :: "nat list \<Rightarrow> nat" where
  "spaceWidthRev [] = 0"
| "spaceWidthRev [a] = (if asciiSpace a then 1 else 0)"
| "spaceWidthRev [b, a] = (if asciiSpace b then 1 else if space2 a b then 2 else 0)"
| "spaceWidthRev (c # b # a # rest) =
     (if asciiSpace c then 1 else if space2 b c then 2 else if space3 a b c then 3 else 0)"

function TrimLeft :: "string \<Rightarrow> string" where
  "TrimLeft s =
     (if spaceWidth (map of_char s) = 0 then s
      else TrimLeft (drop (spaceWidth (map of_char s)) s))"
  by pat_completeness auto
termination
proof (relation "measure length")
  show "wf (measure length)" by simp
next
  fix s :: string
  assume "spaceWidth (map of_char s) \<noteq> 0"
  then have "s \<noteq> []" by (cases s) auto
  then show "(drop (spaceWidth (map of_char s)) s, s) \<in> measure length"
    using \<open>spaceWidth (map of_char s) \<noteq> 0\<close> by simp
qed

function TrimRightRev :: "string \<Rightarrow> string" where
  "TrimRightRev r =
     (if spaceWidthRev (map of_char r) = 0 then r
      else TrimRightRev (drop (spaceWidthRev (map of_char r)) r))"
  by pat_completeness auto
termination
proof (relation "measure length")
  show "wf (measure length)" by simp
next
  fix r :: string
  assume "spaceWidthRev (map of_char r) \<noteq> 0"
  then have "r \<noteq> []" by (cases r) auto
  then show "(drop (spaceWidthRev (map of_char r)) r, r) \<in> measure length"
    using \<open>spaceWidthRev (map of_char r) \<noteq> 0\<close> by simp
qed

declare TrimLeft.simps [simp del] TrimRightRev.simps [simp del]

definition TrimSpace :: "string \<Rightarrow> string" where
  "TrimSpace s = rev (TrimRightRev (rev (TrimLeft s)))"

text \<open>
  \<open>goodNameReg\<close> is the regular expression \<^verbatim>\<open>^[a-zA-Z][\w-.*]*$\<close>: an ASCII letter,
  then any number of ASCII letters, digits, underscores, hyphens, dots and asterisks,
  up to the end of the text.
\<close>

definition isLetter :: "char \<Rightarrow> bool" where
  "isLetter c = (let b = (of_char c :: nat) in (65 \<le> b \<and> b \<le> 90) \<or> (97 \<le> b \<and> b \<le> 122))"

definition isWordChar :: "char \<Rightarrow> bool" where
  "isWordChar c =
     (let b = (of_char c :: nat) in isLetter c \<or> (48 \<le> b \<and> b \<le> 57) \<or> b = 95)"

definition isNameChar :: "char \<Rightarrow> bool" where
  "isNameChar c = (isWordChar c \<or> c = CHR ''-'' \<or> c = CHR ''.'' \<or> c = CHR ''*'')"

fun goodNameReg :: "string \<Rightarrow> bool" where
  "goodNameReg [] = False"
| "goodNameReg (c # cs) = (isLetter c \<and> list_all isNameChar cs)"

definition goodName :: "string \<Rightarrow> panic + string" where
  "goodName nm =
     (let n = TrimSpace nm in
      if n = [] then Inl EmptyName
      else if \<not> goodNameReg n then Inl InvalidName
      else Inr n)"

section \<open>Events and listeners\<close>

text \<open>
  Modelled from the spec: the file declaring \<open>Event\<close>, \<open>BasicEvent\<close> and its methods
  \<open>Name\<close>, \<open>SetName\<close>, \<open>Fill\<close>, \<open>Aborted\<close> and \<open>reset\<close> is not among the sources. An
  event is a name, a payload mapping and an abort flag; \<open>SetName\<close> applies the
  validation of registration; \<open>Fill\<close> initialises the payload from the mappings given;
  \<open>reset\<close> clears payload, abort flag and name. \<open>newBasicEvent\<close> is Go's zero value
  \<^verbatim>\<open>&BasicEvent{}\<close>, which the pool's \<open>New\<close> function of \<open>NewManager\<close> returns.
\<close>

record BasicEvent =
  ename :: string
  payload :: M
  aborted :: bool

definition newBasicEvent :: BasicEvent where
  "newBasicEvent = \<lparr>ename = [], payload = Map.empty, aborted = False\<rparr>"

definition Name :: "BasicEvent \<Rightarrow> string" where
  "Name e = ename e"

definition Aborted :: "BasicEvent \<Rightarrow> bool" where
  "Aborted e = aborted e"

definition SetName :: "string \<Rightarrow> BasicEvent \<Rightarrow> panic + BasicEvent" where
  "SetName nm e = (case goodName nm of Inl p \<Rightarrow> Inl p | Inr n \<Rightarrow> Inr (e\<lparr>ename := n\<rparr>))"

definition Fill :: "any option \<Rightarrow> M list \<Rightarrow> BasicEvent \<Rightarrow> BasicEvent" where
  "Fill target args e = e\<lparr>payload := foldl (++) (payload e) args\<rparr>"

definition reset :: "BasicEvent \<Rightarrow> BasicEvent" where
  "reset e = e\<lparr>ename := [], payload := Map.empty, aborted := False\<rparr>"

text \<open>
  Modelled from the spec: the file declaring \<open>Listener\<close>, \<open>ListenerItem\<close> and
  \<open>ListenerQueue\<close> is not among the sources. A listener has one method, \<open>Handle\<close>,
  which receives the event by reference and returns an error or nil, or panics: here it
  returns the event as it has left it together with its outcome, \<open>Returned\<close> with the
  error or \<open>Panicked\<close>. \<open>lid\<close> stands for the
  identity of the listener value, so that a run can say which listeners it called.
  A listener item pairs a priority with a listener. A queue keeps its items in order;
  \<open>Push\<close> appends, \<open>Sort\<close> is a stable sort by descending priority done in place,
  \<open>Items\<close> reads the current order. Priorities are only compared, never computed
  with, so Go's \<open>int\<close> is \<open>int\<close> here.

  A listener is taken to act on the event it is handed and on nothing else: it comes
  back, by returning or by panicking (it does not run forever), it does not call the
  manager, and it keeps no reference to the event once it has come back. manager.go
  recovers from no panic, so a panic of a listener leaves every function above it at
  once.
\<close>

record Listener =
  lid :: nat
  Handle :: "BasicEvent \<Rightarrow> BasicEvent \<times> error option outcome"

record ListenerItem =
  priority :: int
  listener :: Listener

record ListenerQueue =
  items :: "ListenerItem list"

definition emptyQueue :: ListenerQueue where
  "emptyQueue = \<lparr>items = []\<rparr>"

definition Push :: "ListenerItem \<Rightarrow> ListenerQueue \<Rightarrow> ListenerQueue" where
  "Push li lq = lq\<lparr>items := items lq @ [li]\<rparr>"

definition Sort :: "ListenerQueue \<Rightarrow> ListenerQueue" where
  "Sort lq = lq\<lparr>items := sort_key (\<lambda>li. - priority li) (items lq)\<rparr>"

definition Items :: "ListenerQueue \<Rightarrow> ListenerItem list" where
  "Items lq = items lq"

section \<open>The manager (manager.go)\<close>

text \<open>
  The three maps of the manager are partial functions from names. The pool
  (\<open>sync.Pool\<close>) is the list of the events put back and not yet taken again: \<open>Get\<close>
  takes one of them, or a new zero event when there is none; \<open>Put\<close> adds one.
  Go's pool may hand out any of its events and may drop them; the model hands out the
  one put back last. The counts of \<open>listenedNames\<close> are Go \<open>int\<close>s that the code only
  increments and whose presence alone it reads; they are \<open>int\<close> here, which differs
  from Go's wrap-around only after as many registrations of one name as the largest
  \<open>int\<close>.
  The catalog and the queues hold references in Go; here they hold the values, and an
  operation that changes the object behind a reference stores the changed value back
  under the same key.
\<close>

record Manager =
  name :: string
  pool :: "BasicEvent list"
  events :: "string \<rightharpoonup> BasicEvent"
  listeners :: "string \<rightharpoonup> ListenerQueue"
  listenedNames :: "string \<rightharpoonup> int"

definition Wildcard :: string where
  "Wildcard = ''*''"

definition NewManager :: "string \<Rightarrow> Manager" where
  "NewManager nm =
     \<lparr>name = nm, pool = [], events = Map.empty, listeners = Map.empty,
      listenedNames = Map.empty\<rparr>"

definition poolGet :: "Manager \<Rightarrow> BasicEvent \<times> Manager" where
  "poolGet em = (case pool em of [] \<Rightarrow> (newBasicEvent, em) | e # es \<Rightarrow> (e, em\<lparr>pool := es\<rparr>))"

definition poolPut :: "BasicEvent \<Rightarrow> Manager \<Rightarrow> Manager" where
  "poolPut e em = em\<lparr>pool := e # pool em\<rparr>"

text \<open>
  \<open>On\<close> returns the manager as the call leaves it and the panic, if any. A nil
  listener is \<open>None\<close>.
\<close>

definition On :: "Manager \<Rightarrow> string \<Rightarrow> Listener option \<Rightarrow> int \<Rightarrow> Manager \<times> panic option" where
  "On em nm lst prio =
     (case goodName nm of
        Inl p \<Rightarrow> (em, Some p)
      | Inr n \<Rightarrow>
          (case lst of
             None \<Rightarrow> (em, Some (NilListener n))
           | Some l \<Rightarrow>
               (let li = \<lparr>priority = prio, listener = l\<rparr> in
                case listeners em n of
                  Some lq \<Rightarrow>
                    (em\<lparr>listenedNames :=
                          (listenedNames em)(n \<mapsto> (case listenedNames em n of
                                                       None \<Rightarrow> 0 | Some k \<Rightarrow> k) + 1),
                        listeners := (listeners em)(n \<mapsto> Push li lq)\<rparr>, None)
                | None \<Rightarrow>
                    (em\<lparr>listenedNames := (listenedNames em)(n \<mapsto> 1),
                        listeners := (listeners em)(n \<mapsto> Push li emptyQueue)\<rparr>, None))))"

text \<open>
  A run of listeners records one \<open>call\<close> for every \<open>Handle\<close> it makes: the listener
  called, its outcome (the error it returned, or its panic), and whether the event was
  aborted after it. \<open>callItems\<close> is the loop over the items of a sorted queue; its
  last component says whether the loop was left before its end, through its \<open>return\<close>
  or by a panic. Its second component is what the function then yields: the value of
  \<open>err\<close>, or the panic.
\<close>

type_synonym call = "nat \<times> error option outcome \<times> bool"

definition called :: "call \<Rightarrow> nat" where
  "called c = fst c"

definition returned :: "call \<Rightarrow> error option outcome" where
  "returned c = fst (snd c)"

definition abortedAfter :: "call \<Rightarrow> bool" where
  "abortedAfter c = snd (snd c)"

fun callItems :: "ListenerItem list \<Rightarrow> BasicEvent \<Rightarrow> BasicEvent \<times> error option outcome \<times> call list \<times> bool" where
  "callItems [] e = (e, Returned None, [], False)"
| "callItems (li # lis) e =
     (case Handle (listener li) e of
        (e1, Panicked p) \<Rightarrow> (e1, Panicked p, [(lid (listener li), Panicked p, Aborted e1)], True)
      | (e1, Returned err) \<Rightarrow>
          if err \<noteq> None \<or> Aborted e1
          then (e1, Returned err, [(lid (listener li), Returned err, Aborted e1)], True)
          else (case callItems lis e1 of
                  (e2, out2, tr, stop) \<Rightarrow>
                    (e2, out2, (lid (listener li), Returned err, Aborted e1) # tr, stop)))"

text \<open>\<open>strings.LastIndexByte\<close>: the index of the last byte equal to \<open>c\<close>, or -1.\<close>

fun lastIndexFrom :: "string \<Rightarrow> char \<Rightarrow> nat \<Rightarrow> int" where
  "lastIndexFrom s c 0 = - 1"
| "lastIndexFrom s c (Suc i) = (if s ! i = c then int i else lastIndexFrom s c i)"

definition LastIndexByte :: "string \<Rightarrow> char \<Rightarrow> int" where
  "LastIndexByte s c = lastIndexFrom s c (length s)"

text \<open>
  \<open>runQueue\<close> is the body the three steps of \<open>FireEvent\<close> share once the queue
  \<open>lq\<close> of \<open>key\<close> has been found: sort it in place and call its items in order.
\<close>

definition runQueue :: "Manager \<Rightarrow> string \<Rightarrow> ListenerQueue \<Rightarrow> BasicEvent \<Rightarrow> Manager \<times> BasicEvent \<times> error option outcome \<times> call list \<times> bool" where
  "runQueue em key lq e =
     (case callItems (Items (Sort lq)) e of
        (e1, err, tr, stop) \<Rightarrow>
          (em\<lparr>listeners := (listeners em)(key \<mapsto> Sort lq)\<rparr>, e1, err, tr, stop))"

text \<open>
  The group pattern of \<open>FireEvent\<close>: \<^verbatim>\<open>name[:pos] + Wildcard\<close> when the last dot is at a
  position \<open>pos\<close> with \<open>0 < pos < len(name)\<close>.
\<close>

definition groupName :: "string \<Rightarrow> string option" where
  "groupName nm =
     (let pos = LastIndexByte nm CHR ''.'' in
      if pos > 0 \<and> pos < int (length nm) then Some (take (nat pos) nm @ Wildcard) else None)"

text \<open>
  \<open>FireEvent\<close> yields the manager (its queues sorted), the event as the listeners left
  it, its outcome (the error returned, or the panic of a listener) and the calls made,
  in order. The name is read once, before any listener runs.
\<close>

definition FireEvent :: "Manager \<Rightarrow> BasicEvent \<Rightarrow> Manager \<times> BasicEvent \<times> error option outcome \<times> call list" where
  "FireEvent em e =
     (let nm = Name e in
      case listeners em nm of
        None \<Rightarrow> (em, e, Returned None, [])
      | Some lq0 \<Rightarrow>
          (case runQueue em nm lq0 e of
             (em1, e1, out1, tr1, stop1) \<Rightarrow>
               if stop1 then (em1, e1, out1, tr1)
               else
                 (case (case groupName nm of
                          None \<Rightarrow> (em1, e1, out1, [], False)
                        | Some g \<Rightarrow>
                            (case listeners em1 g of
                               None \<Rightarrow> (em1, e1, out1, [], False)
                             | Some lq1 \<Rightarrow> runQueue em1 g lq1 e1)) of
                    (em2, e2, out2, tr2, stop2) \<Rightarrow>
                      if stop2 then (em2, e2, out2, tr1 @ tr2)
                      else
                        (case listeners em2 Wildcard of
                           None \<Rightarrow> (em2, e2, out2, tr1 @ tr2)
                         | Some lq2 \<Rightarrow>
                             (case runQueue em2 Wildcard lq2 e2 of
                                (em3, e3, out3, tr3, stop3) \<Rightarrow>
                                  (em3, e3, out3, tr1 @ tr2 @ tr3))))))"

text \<open>
  \<open>Fire\<close>: a catalog event is dispatched as it is stored, and what the listeners did to
  it stays in the catalog; otherwise an event from the pool is named, filled, dispatched,
  reset and put back. The reset and the \<open>Put\<close> are plain statements after the call of
  \<open>FireEvent\<close>, not deferred: a panic of a listener skips them. The result is the
  manager, the outcome and the calls made.
\<close>

definition Fire :: "Manager \<Rightarrow> string \<Rightarrow> M list \<Rightarrow> Manager \<times> error option outcome \<times> call list" where
  "Fire em nm args =
     (case goodName nm of
        Inl p \<Rightarrow> (em, Panicked p, [])
      | Inr n \<Rightarrow>
          (case events em n of
             Some e \<Rightarrow>
               (case FireEvent em e of
                  (em1, e1, out, tr) \<Rightarrow> (em1\<lparr>events := (events em1)(n \<mapsto> e1)\<rparr>, out, tr))
           | None \<Rightarrow>
               (case poolGet em of
                  (e0, em0) \<Rightarrow>
                    (case SetName n e0 of
                       Inl p \<Rightarrow> (em0, Panicked p, [])
                     | Inr e1 \<Rightarrow>
                         (case FireEvent em0 (Fill None args e1) of
                            (em1, e2, Panicked q, tr) \<Rightarrow> (em1, Panicked q, tr)
                          | (em1, e2, Returned err, tr) \<Rightarrow>
                              (poolPut (reset e2) em1, Returned err, tr))))))"

definition MustFire :: "Manager \<Rightarrow> string \<Rightarrow> M list \<Rightarrow> Manager \<times> unit outcome \<times> call list" where
  "MustFire em nm args =
     (case Fire em nm args of
        (em1, Panicked p, tr) \<Rightarrow> (em1, Panicked p, tr)
      | (em1, Returned (Some err), tr) \<Rightarrow> (em1, Panicked (PanicErr err), tr)
      | (em1, Returned None, tr) \<Rightarrow> (em1, Returned (), tr))"

definition HasListeners :: "Manager \<Rightarrow> string \<Rightarrow> bool" where
  "HasListeners em nm = (listenedNames em nm \<noteq> None)"

definition ClearListeners :: "Manager \<Rightarrow> string \<Rightarrow> Manager" where
  "ClearListeners em nm =
     (if listenedNames em nm \<noteq> None
      then em\<lparr>listenedNames := (listenedNames em)(nm := None),
              listeners := (listeners em)(nm := None)\<rparr>
      else em)"

definition AddEvent :: "Manager \<Rightarrow> BasicEvent \<Rightarrow> Manager \<times> panic option" where
  "AddEvent em e =
     (case goodName (Name e) of
        Inl p \<Rightarrow> (em, Some p)
      | Inr n \<Rightarrow> (em\<lparr>events := (events em)(n \<mapsto> e)\<rparr>, None))"

definition GetEvent :: "Manager \<Rightarrow> string \<Rightarrow> BasicEvent option" where
  "GetEvent em nm = events em nm"

definition HasEvent :: "Manager \<Rightarrow> string \<Rightarrow> bool" where
  "HasEvent em nm = (events em nm \<noteq> None)"

definition DelEvent :: "Manager \<Rightarrow> string \<Rightarrow> Manager" where
  "DelEvent em nm = (if events em nm \<noteq> None then em\<lparr>events := (events em)(nm := None)\<rparr> else em)"

definition ClearEvents :: "Manager \<Rightarrow> Manager" where
  "ClearEvents em = em\<lparr>events := Map.empty\<rparr>"

definition Clear :: "Manager \<Rightarrow> Manager" where
  "Clear em = em\<lparr>name := [], events := Map.empty, listeners := Map.empty,
                  listenedNames := Map.empty\<rparr>"

section \<open>Sequences of operations\<close>

text \<open>
  A program uses a manager through the methods of manager.go. \<open>op\<close> names the ones
  that change it, \<open>apply_op\<close> is one call (its results other than the manager
  dropped; after a panic the manager is as the panic left it) and \<open>run\<close> a sequence
  of calls. The managers a program can hold are \<open>run ops (NewManager x)\<close>.
  \<open>FireEvent\<close> is called either on an event of the caller's own (\<open>OpFireEvent\<close>) or
  on the instance the catalog holds under a name (\<open>OpFireStored\<close>), which then stays
  in the catalog as the listeners left it. One instance stored under two names is not
  modelled.
\<close>

datatype op =
    OpOn string "Listener option" int
  | OpFire string "M list"
  | OpMustFire string "M list"
  | OpFireEvent BasicEvent
  | OpFireStored string
  | OpClearListeners string
  | OpAddEvent BasicEvent
  | OpDelEvent string
  | OpClearEvents
  | OpClear

fun apply_op :: "Manager \<Rightarrow> op \<Rightarrow> Manager" where
  "apply_op em (OpOn nm lst prio) = fst (On em nm lst prio)"
| "apply_op em (OpFire nm args) = fst (Fire em nm args)"
| "apply_op em (OpMustFire nm args) = fst (MustFire em nm args)"
| "apply_op em (OpFireEvent e) = fst (FireEvent em e)"
| "apply_op em (OpFireStored nm) =
     (case events em nm of
        None \<Rightarrow> em
      | Some e \<Rightarrow>
          (case FireEvent em e of
             (em1, e1, out, tr) \<Rightarrow> em1\<lparr>events := (events em1)(nm \<mapsto> e1)\<rparr>))"
| "apply_op em (OpClearListeners nm) = ClearListeners em nm"
| "apply_op em (OpAddEvent e) = fst (AddEvent em e)"
| "apply_op em (OpDelEvent nm) = DelEvent em nm"
| "apply_op em OpClearEvents = ClearEvents em"
| "apply_op em OpClear = Clear em"

definition run :: "op list \<Rightarrow> Manager \<Rightarrow> Manager" where
  "run ops em = foldl apply_op em ops"

section \<open>Vocabulary of the properties\<close>

text \<open>
  A call is \<open>quiet\<close> when it returned nil and left the event not aborted. \<open>stage\<close>
  describes the calls of one loop of \<open>FireEvent\<close>: all quiet but possibly the last,
  and the loop stopped exactly when the last call was not quiet, with its outcome.
  \<open>chain\<close> is what remains of it for a whole dispatch.
\<close>

definition quiet :: "call \<Rightarrow> bool" where
  "quiet c = (returned c = Returned None \<and> \<not> abortedAfter c)"

definition stage :: "call list \<Rightarrow> error option outcome \<Rightarrow> bool \<Rightarrow> bool" where
  "stage tr out stop =
     (list_all quiet (butlast tr) \<and>
      (if stop then tr \<noteq> [] \<and> \<not> quiet (last tr) \<and> out = returned (last tr)
       else list_all quiet tr \<and> out = Returned None))"

definition chain :: "call list \<Rightarrow> error option outcome \<Rightarrow> bool" where
  "chain tr out =
     (list_all quiet (butlast tr) \<and>
      out = (if tr = [] then Returned None else returned (last tr)))"

text \<open>
  \<open>queueItems\<close> are the items of a queue in the order a dispatch calls them.
  \<open>dispatchOrder\<close> is the order in which \<open>FireEvent\<close> calls the listeners of an event
  named \<open>nm\<close> when no listener stops it: nothing without a queue for \<open>nm\<close>, else
  the queue of \<open>nm\<close>, then the queue of its group pattern, then the queue of the
  wildcard. \<open>inOrder tr lis\<close> says that the calls \<open>tr\<close> went to the first listeners of
  \<open>lis\<close>, in order. \<open>sameState\<close> relates two managers that differ at most in the
  order inside their queues, the sorted order being the same.
\<close>

definition queueItems :: "Manager \<Rightarrow> string \<Rightarrow> ListenerItem list option" where
  "queueItems em key = (case listeners em key of None \<Rightarrow> None | Some lq \<Rightarrow> Some (Items (Sort lq)))"

definition dispatchOrder :: "Manager \<Rightarrow> string \<Rightarrow> ListenerItem list" where
  "dispatchOrder em nm =
     (case queueItems em nm of
        None \<Rightarrow> []
      | Some xs \<Rightarrow>
          xs @ (case groupName nm of
                  None \<Rightarrow> []
                | Some g \<Rightarrow> (case queueItems em g of None \<Rightarrow> [] | Some ys \<Rightarrow> ys))
             @ (case queueItems em Wildcard of None \<Rightarrow> [] | Some zs \<Rightarrow> zs))"

definition ids :: "ListenerItem list \<Rightarrow> nat list" where
  "ids lis = map (\<lambda>li. lid (listener li)) lis"

definition inOrder :: "call list \<Rightarrow> ListenerItem list \<Rightarrow> bool" where
  "inOrder tr lis = (map called tr = take (length tr) (ids lis))"

definition sameState :: "Manager \<Rightarrow> Manager \<Rightarrow> bool" where
  "sameState em' em =
     (name em' = name em \<and> pool em' = pool em \<and> events em' = events em \<and>
      listenedNames em' = listenedNames em \<and> queueItems em' = queueItems em)"

text \<open>
  What every manager a program can hold satisfies: the two listener maps have the same
  names, the pool holds zero events only, and the names of the catalog are valid.
\<close>

definition wellFormed :: "Manager \<Rightarrow> bool" where
  "wellFormed em =
     (dom (listenedNames em) = dom (listeners em) \<and>
      list_all (\<lambda>e. e = newBasicEvent) (pool em) \<and>
      (\<forall>k e. events em k = Some e \<longrightarrow> goodName k = Inr k))"

section \<open>Example listeners and events\<close>

definition nopListener :: "nat \<Rightarrow> Listener" where
  "nopListener i = \<lparr>lid = i, Handle = (\<lambda>e. (e, Returned None))\<rparr>"

definition failListener :: "nat \<Rightarrow> string \<Rightarrow> Listener" where
  "failListener i msg = \<lparr>lid = i, Handle = (\<lambda>e. (e, Returned (Some (Error msg))))\<rparr>"

definition abortListener :: "nat \<Rightarrow> Listener" where
  "abortListener i = \<lparr>lid = i, Handle = (\<lambda>e. (e\<lparr>aborted := True\<rparr>, Returned None))\<rparr>"

definition panicListener :: "nat \<Rightarrow> string \<Rightarrow> Listener" where
  "panicListener i msg =
     \<lparr>lid = i, Handle = (\<lambda>e. (e\<lparr>aborted := True\<rparr>, Panicked (ListenerPanic msg)))\<rparr>"

definition probeListener :: "nat \<Rightarrow> string \<Rightarrow> Listener" where
  "probeListener i k =
     \<lparr>lid = i,
      Handle = (\<lambda>e. (e, if payload e k = None \<and> \<not> aborted e then Returned None
                           else Returned (Some (Error ''residue''))))\<rparr>"

definition basicEvent :: "string \<Rightarrow> BasicEvent" where
  "basicEvent n = \<lparr>ename = n, payload = Map.empty, aborted = False\<rparr>"

text \<open>
  Two managers with three listeners on \<open>app.run\<close>, registered in ascending priority,
  and one on \<open>app*\<close>, the group pattern \<open>FireEvent\<close> computes for \<open>app.run\<close>. The
  second listener called fails in the first manager and aborts the event in the second.
\<close>

definition failingManager :: Manager where
  "failingManager =
     run [OpOn ''app.run'' (Some (nopListener 3)) 1,
          OpOn ''app.run'' (Some (failListener 2 ''boom'')) 3,
          OpOn ''app.run'' (Some (nopListener 1)) 5,
          OpOn ''app*'' (Some (nopListener 4)) 0] (NewManager ''m'')"

definition abortingManager :: Manager where
  "abortingManager =
     run [OpOn ''app.run'' (Some (nopListener 3)) 1,
          OpOn ''app.run'' (Some (abortListener 2)) 3,
          OpOn ''app.run'' (Some (nopListener 1)) 5,
          OpOn ''app*'' (Some (nopListener 4)) 0] (NewManager ''m'')"

text \<open>
  A manager with one listener on \<open>x\<close> and one catalog event \<open>evt\<close>.
\<close>

definition smallManager :: Manager where
  "smallManager =
     run [OpOn ''x'' (Some (nopListener 1)) 0, OpAddEvent (basicEvent ''evt'')] (NewManager ''m'')"

text \<open>
  A manager after registrations (one of them refused: \<open>9\<close> is no valid name), a
  fire and a \<open>ClearListeners\<close>; a manager with a catalog event that carries a payload
  and a listener that fails when it finds the key \<open>a\<close> in the payload or the event
  aborted; and a manager that has fired three scratch events with a payload, one to a
  listener that panics, one to a listener that fails and one to a listener that aborts.
\<close>

definition clearedManager :: Manager where
  "clearedManager =
     run [OpOn ''x'' (Some (nopListener 1)) 0, OpOn ''x'' (Some (nopListener 2)) 7,
          OpOn ''y.*'' (Some (nopListener 3)) 0, OpOn ''9'' (Some (nopListener 4)) 0,
          OpFire ''x'' [], OpClearListeners ''y.*''] (NewManager ''m'')"

definition catalogManager :: Manager where
  "catalogManager =
     run [OpAddEvent \<lparr>ename = ''evt'', payload = [''k'' \<mapsto> AInt 7], aborted = False\<rparr>,
          OpOn ''evt'' (Some (probeListener 1 ''a'')) 0] (NewManager ''m'')"

definition usedManager :: Manager where
  "usedManager =
     run [OpOn ''e'' (Some (failListener 1 ''boom'')) 0,
          OpOn ''e0'' (Some (abortListener 3)) 0,
          OpOn ''e2'' (Some (probeListener 2 ''a'')) 0,
          OpOn ''e3'' (Some (panicListener 4 ''oops'')) 0,
          OpFire ''e3'' [[''a'' \<mapsto> AInt 1]],
          OpFire ''e'' [[''a'' \<mapsto> AInt 1]],
          OpFire ''e0'' [[''a'' \<mapsto> AInt 1]]] (NewManager ''m'')"

text \<open>
  A manager whose first listener on \<open>e\<close> panics, with a second listener behind it.
\<close>

definition panickingManager :: Manager where
  "panickingManager =
     run [OpOn ''e'' (Some (panicListener 1 ''oops'')) 0,
          OpOn ''e'' (Some (nopListener 5)) (- 1)] (NewManager ''m'')"

section \<open>The calls of a dispatch\<close>

lemma callItems_trace:
  "callItems lis e = (e', out, tr, stop) \<Longrightarrow>
     list_all quiet (butlast tr) \<and>
     (if stop then tr \<noteq> [] \<and> \<not> quiet (last tr) \<and> out = returned (last tr)
      else list_all quiet tr \<and> out = Returned None)"
proof (induction lis arbitrary: e e' out tr stop)
  case Nil
  then show ?case by simp
next
  case (Cons li lis)
  obtain e1 r where h: "Handle (listener li) e = (e1, r)" by (cases "Handle (listener li) e")
  show ?case
  proof (cases "r = Returned None \<and> \<not> Aborted e1")
    case False
    with Cons.prems h show ?thesis
      by (cases r) (auto simp: quiet_def returned_def abortedAfter_def)
  next
    case True
    obtain e2 r2 tr2 st2 where c: "callItems lis e1 = (e2, r2, tr2, st2)"
      by (cases "callItems lis e1") auto
    from Cons.IH[OF c] have ih: "list_all quiet (butlast tr2)"
      "if st2 then tr2 \<noteq> [] \<and> \<not> quiet (last tr2) \<and> r2 = returned (last tr2)
       else list_all quiet tr2 \<and> r2 = Returned None" by simp_all
    from True Cons.prems h c have eq: "e' = e2" "out = r2"
      "tr = (lid (listener li), r, Aborted e1) # tr2" "stop = st2"
      by auto
    have q: "quiet (lid (listener li), r, Aborted e1)" using True
      by (simp add: quiet_def returned_def abortedAfter_def)
    show ?thesis
    proof (cases st2)
      case True
      with ih eq q show ?thesis by (cases tr2) auto
    next
      case False
      with ih eq q show ?thesis by (cases tr2) auto
    qed
  qed
qed

lemma stage_Nil: "stage [] (Returned None) False"
  by (simp add: stage_def)

lemma stage_append:
  "stage tr1 err1 False \<Longrightarrow> stage tr2 err2 s2 \<Longrightarrow> stage (tr1 @ tr2) err2 s2"
  by (cases tr2 rule: rev_cases) (auto simp: stage_def butlast_append)

lemma stage_chain: "stage tr err s \<Longrightarrow> chain tr err"
  by (cases tr rule: rev_cases) (auto simp: stage_def chain_def quiet_def split: if_splits)

lemma runQueue_stage:
  "runQueue em key lq e = (em1, e1, err, tr, stop) \<Longrightarrow> stage tr err stop"
  unfolding runQueue_def stage_def
  by (auto split: prod.splits dest!: callItems_trace)

lemma runQueue_frame:
  "runQueue em key lq e = (em1, e1, err, tr, stop) \<Longrightarrow>
     em1 = em\<lparr>listeners := (listeners em)(key \<mapsto> Sort lq)\<rparr>"
  unfolding runQueue_def by (auto split: prod.splits)

lemma chain_not_quiet_last:
  "chain tr out \<Longrightarrow> i < length tr \<Longrightarrow> \<not> quiet (tr ! i) \<Longrightarrow>
     Suc i = length tr \<and> out = returned (tr ! i)"
proof -
  assume c: "chain tr out" and i: "i < length tr" and r: "\<not> quiet (tr ! i)"
  have "\<not> i < length (butlast tr)"
  proof
    assume b: "i < length (butlast tr)"
    then have "quiet (butlast tr ! i)" using c by (simp add: chain_def list_all_length)
    then show False using r b by (simp add: nth_butlast)
  qed
  then have l: "Suc i = length tr" using i by simp
  then have "last tr = tr ! i" using i by (metis diff_Suc_1 last_conv_nth length_0_conv nat.distinct(1))
  then show ?thesis using c l i by (auto simp: chain_def)
qed

lemma chain_error_last:
  assumes "chain tr out" and "i < length tr" and "returned (tr ! i) = Returned (Some x)"
  shows "Suc i = length tr \<and> out = Returned (Some x)"
proof -
  have "\<not> quiet (tr ! i)" using assms(3) by (simp add: quiet_def)
  from chain_not_quiet_last[OF assms(1,2) this] assms(3) show ?thesis by simp
qed

lemma chain_abort_last:
  assumes "chain tr out" and "i < length tr" and "abortedAfter (tr ! i)"
  shows "Suc i = length tr \<and> out = returned (tr ! i)"
proof -
  have "\<not> quiet (tr ! i)" using assms(3) by (simp add: quiet_def)
  from chain_not_quiet_last[OF assms(1,2) this] show ?thesis .
qed

lemma chain_panic_last:
  assumes "chain tr out" and "i < length tr" and "returned (tr ! i) = Panicked p"
  shows "Suc i = length tr \<and> out = Panicked p"
proof -
  have "\<not> quiet (tr ! i)" using assms(3) by (simp add: quiet_def)
  from chain_not_quiet_last[OF assms(1,2) this] assms(3) show ?thesis by simp
qed

lemma chain_panicked:
  assumes "chain tr (Panicked p)"
  shows "tr \<noteq> [] \<and> returned (last tr) = Panicked p"
proof (cases "tr = []")
  case True
  then show ?thesis using assms by (simp add: chain_def)
next
  case False
  then show ?thesis using assms by (simp add: chain_def)
qed

section \<open>Valid names are not trimmed\<close>

lemma isLetter_byte: "isLetter c \<Longrightarrow> 65 \<le> (of_char c :: nat) \<and> (of_char c :: nat) \<le> 122"
  by (auto simp: isLetter_def Let_def)

lemma isNameChar_byte: "isNameChar c \<Longrightarrow> 42 \<le> (of_char c :: nat) \<and> (of_char c :: nat) \<le> 122"
  by (auto simp: isNameChar_def isWordChar_def isLetter_def Let_def)

lemma spaceWidth_letter:
  assumes "isLetter c"
  shows "spaceWidth (of_char c # bs) = 0"
proof -
  from isLetter_byte[OF assms] have b: "65 \<le> (of_char c :: nat)" "(of_char c :: nat) \<le> 122" by simp_all
  then have "\<not> asciiSpace (of_char c)" "\<And>x. \<not> space2 (of_char c) x" "\<And>x y. \<not> space3 (of_char c) x y"
    by (auto simp: asciiSpace_def space2_def space3_def)
  then show ?thesis
    by (cases bs; cases "tl bs"; auto)
qed

lemma spaceWidthRev_nameChar:
  assumes "isNameChar c"
  shows "spaceWidthRev (of_char c # bs) = 0"
proof -
  from isNameChar_byte[OF assms] have b: "42 \<le> (of_char c :: nat)" "(of_char c :: nat) \<le> 122" by simp_all
  then have "\<not> asciiSpace (of_char c)" "\<And>x. \<not> space2 x (of_char c)" "\<And>x y. \<not> space3 x y (of_char c)"
    by (auto simp: asciiSpace_def space2_def space3_def)
  then show ?thesis
    by (cases bs; cases "tl bs"; auto)
qed

lemma TrimSpace_goodNameReg:
  assumes "goodNameReg n"
  shows "TrimSpace n = n"
proof -
  from assms obtain c cs where n: "n = c # cs" and c: "isLetter c" and cs: "list_all isNameChar cs"
    by (cases n) auto
  have l: "TrimLeft n = n"
    using spaceWidth_letter[OF c] by (subst TrimLeft.simps) (simp add: n)
  have "n \<noteq> []" using n by simp
  then obtain ys y where yn: "n = ys @ [y]" by (metis rev_exhaust)
  have "y \<in> set n" using yn by simp
  then have "isNameChar y"
    using c cs n by (auto simp: list_all_iff isNameChar_def isWordChar_def Let_def)
  then have "spaceWidthRev (map of_char (rev n)) = 0"
    using spaceWidthRev_nameChar[of y "map of_char (rev ys)"] by (simp add: yn)
  then have "TrimRightRev (rev n) = rev n" by (subst TrimRightRev.simps) simp
  then show ?thesis by (simp add: TrimSpace_def l)
qed

lemma goodName_Inr: "goodName nm = Inr n \<Longrightarrow> n = TrimSpace nm \<and> n \<noteq> [] \<and> goodNameReg n"
  by (auto simp: goodName_def Let_def split: if_splits)

lemma goodName_idem: "goodName nm = Inr n \<Longrightarrow> goodName n = Inr n"
proof -
  assume "goodName nm = Inr n"
  then have g: "n \<noteq> []" "goodNameReg n" using goodName_Inr by blast+
  then show ?thesis using TrimSpace_goodNameReg[OF g(2)] by (simp add: goodName_def)
qed

section \<open>What a dispatch changes, and its order\<close>

lemma Sort_idem: "Sort (Sort lq) = Sort lq"
proof -
  have "sort_key (\<lambda>li. - priority li) (sort_key (\<lambda>li. - priority li) (items lq))
          = sort_key (\<lambda>li. - priority li) (items lq)"
    by (rule sort_key_id_if_sorted) (rule sorted_sort_key)
  then show ?thesis by (simp add: Sort_def)
qed

lemma sameState_refl: "sameState em em"
  by (simp add: sameState_def)

lemma sameState_trans: "sameState c b \<Longrightarrow> sameState b a \<Longrightarrow> sameState c a"
  by (simp add: sameState_def)

lemma sameState_dom: "sameState em' em \<Longrightarrow> dom (listeners em') = dom (listeners em)"
proof -
  assume "sameState em' em"
  then have q: "\<And>k. queueItems em' k = queueItems em k" by (simp add: sameState_def)
  have "(listeners em' k = None) = (listeners em k = None)" for k
    using q[of k] by (cases "listeners em' k"; cases "listeners em k") (simp_all add: queueItems_def)
  then show ?thesis by (auto simp: dom_def)
qed

lemma callItems_called:
  "callItems lis e = (e', out, tr, stop) \<Longrightarrow>
     map called tr = take (length tr) (ids lis) \<and> (stop \<or> length tr = length lis)"
proof (induction lis arbitrary: e e' out tr stop)
  case Nil
  then show ?case by (simp add: ids_def)
next
  case (Cons li lis)
  obtain e1 r where h: "Handle (listener li) e = (e1, r)" by (cases "Handle (listener li) e")
  show ?case
  proof (cases "r = Returned None \<and> \<not> Aborted e1")
    case False
    with Cons.prems h show ?thesis by (cases r) (auto simp: ids_def called_def)
  next
    case True
    obtain e2 r2 tr2 st2 where c: "callItems lis e1 = (e2, r2, tr2, st2)"
      by (cases "callItems lis e1") auto
    from True Cons.prems h c have eq: "tr = (lid (listener li), r, Aborted e1) # tr2" "stop = st2"
      by auto
    with Cons.IH[OF c] show ?thesis by (auto simp: ids_def called_def)
  qed
qed

lemma runQueue_props:
  assumes "runQueue em key lq e = (em1, e1, err, tr, stop)" and "listeners em key = Some lq"
  shows "stage tr err stop" and "sameState em1 em"
    and "map called tr = take (length tr) (ids (the (queueItems em key)))"
    and "stop \<or> length tr = length (the (queueItems em key))"
proof -
  show "stage tr err stop" using runQueue_stage[OF assms(1)] .
  have em1: "em1 = em\<lparr>listeners := (listeners em)(key \<mapsto> Sort lq)\<rparr>"
    using runQueue_frame[OF assms(1)] .
  have "queueItems em1 k = queueItems em k" for k
    using assms(2) by (simp add: em1 queueItems_def Sort_idem)
  then show "sameState em1 em" by (auto simp: sameState_def em1)
  obtain e' where c: "callItems (Items (Sort lq)) e = (e', err, tr, stop)"
    using assms(1) by (auto simp: runQueue_def split: prod.splits)
  have q: "the (queueItems em key) = Items (Sort lq)" using assms(2) by (simp add: queueItems_def)
  show "map called tr = take (length tr) (ids (the (queueItems em key)))"
    using callItems_called[OF c] q by simp
  show "stop \<or> length tr = length (the (queueItems em key))"
    using callItems_called[OF c] q by simp
qed

lemma ids_append: "ids (xs @ ys) = ids xs @ ids ys"
  by (simp add: ids_def)

lemma length_ids: "length (ids xs) = length xs"
  by (simp add: ids_def)

lemma inOrder_length: "inOrder tr lis \<Longrightarrow> length tr \<le> length lis"
proof -
  assume "inOrder tr lis"
  then have "length (map called tr) = length (take (length tr) (ids lis))"
    by (simp add: inOrder_def)
  then show ?thesis by (simp add: length_ids)
qed

lemma inOrder_Nil: "inOrder [] lis"
  by (simp add: inOrder_def)

lemma inOrder_extend: "inOrder tr xs \<Longrightarrow> inOrder tr (xs @ ws)"
  using inOrder_length[of tr xs] by (simp add: inOrder_def ids_append length_ids)

lemma inOrder_full: "inOrder tr xs \<Longrightarrow> length tr = length xs \<Longrightarrow> map called tr = ids xs"
  by (simp add: inOrder_def length_ids)

lemma inOrder_append:
  "inOrder tr1 xs \<Longrightarrow> length tr1 = length xs \<Longrightarrow> inOrder tr2 ws \<Longrightarrow> inOrder (tr1 @ tr2) (xs @ ws)"
  using inOrder_full[of tr1 xs] by (simp add: inOrder_def ids_append length_ids)

lemma runQueue_inOrder:
  assumes "runQueue em key lq e = (em1, e1, err, tr, stop)" and "listeners em key = Some lq"
  shows "inOrder tr (the (queueItems em key))"
  using runQueue_props(3)[OF assms] by (simp add: inOrder_def)

lemma FireEvent_props:
  assumes fe: "FireEvent em e = (em', e', err, tr)"
  shows "(\<exists>s. stage tr err s) \<and> sameState em' em \<and> inOrder tr (dispatchOrder em (Name e))"
proof (cases "listeners em (Name e)")
  case None
  with fe have "tr = []" "err = Returned None" "em' = em" by (simp_all add: FireEvent_def)
  then show ?thesis using stage_Nil sameState_refl inOrder_Nil by blast
next
  case (Some lq0)
  define nm where "nm = Name e"
  define X where "X = the (queueItems em nm)"
  define Y where "Y = (case groupName nm of None \<Rightarrow> []
                | Some g \<Rightarrow> (case queueItems em g of None \<Rightarrow> [] | Some ys \<Rightarrow> ys))"
  define Z where "Z = (case queueItems em Wildcard of None \<Rightarrow> [] | Some zs \<Rightarrow> zs)"
  have lq0: "listeners em nm = Some lq0" using Some by (simp add: nm_def)
  have d: "dispatchOrder em nm = X @ Y @ Z"
    using lq0 by (simp add: dispatchOrder_def X_def Y_def Z_def queueItems_def)
  obtain em1 e1 err1 tr1 stop1 where r1: "runQueue em nm lq0 e = (em1, e1, err1, tr1, stop1)"
    by (cases "runQueue em nm lq0 e") auto
  note p1 = runQueue_props[OF r1 lq0]
  have o1: "inOrder tr1 X" using runQueue_inOrder[OF r1 lq0] by (simp add: X_def)
  have q1: "queueItems em1 = queueItems em" using p1(2) by (simp add: sameState_def)
  show ?thesis
  proof (cases stop1)
    case True
    with fe lq0 r1 have "tr = tr1" "err = err1" "em' = em1" by (simp_all add: FireEvent_def nm_def)
    then show ?thesis using p1(1,2) inOrder_extend[OF o1] d by (auto simp: nm_def)
  next
    case n1: False
    then have l1: "length tr1 = length X" using p1(4) by (simp add: X_def)
    define g2 where "g2 = (case groupName nm of
                        None \<Rightarrow> (em1, e1, err1, [], False)
                      | Some g \<Rightarrow>
                          (case listeners em1 g of
                             None \<Rightarrow> (em1, e1, err1, [], False)
                           | Some lq1 \<Rightarrow> runQueue em1 g lq1 e1))"
    obtain em2 e2 err2 tr2 stop2 where r2: "g2 = (em2, e2, err2, tr2, stop2)"
      by (cases g2) auto
    have e1n: "err1 = Returned None" using p1(1) n1 by (simp add: stage_def)
    have skip: "g2 = (em1, e1, err1, [], False) \<Longrightarrow>
                  stage tr2 err2 stop2 \<and> sameState em2 em1 \<and> inOrder tr2 [] \<and> \<not> stop2 \<and> tr2 = []"
    proof -
      assume "g2 = (em1, e1, err1, [], False)"
      then have "em2 = em1" "err2 = Returned None" "tr2 = []" "stop2 = False"
        using r2 e1n by simp_all
      then show ?thesis using stage_Nil sameState_refl inOrder_Nil by simp
    qed
    have s2: "stage tr2 err2 stop2 \<and> sameState em2 em1 \<and> inOrder tr2 Y \<and> (stop2 \<or> length tr2 = length Y)"
    proof (cases "groupName nm")
      case None
      then have "g2 = (em1, e1, err1, [], False)" and "Y = []" by (simp_all add: g2_def Y_def)
      then show ?thesis using skip by auto
    next
      case g: (Some g)
      show ?thesis
      proof (cases "listeners em1 g")
        case None
        then have "queueItems em1 g = None" by (simp add: queueItems_def)
        then have "queueItems em g = None" using q1 by simp
        then have "Y = []" using g by (simp add: Y_def)
        moreover have "g2 = (em1, e1, err1, [], False)" using g None by (simp add: g2_def)
        ultimately show ?thesis using skip by auto
      next
        case (Some lq1)
        then have r: "runQueue em1 g lq1 e1 = (em2, e2, err2, tr2, stop2)"
          using r2 g by (simp add: g2_def)
        have "queueItems em1 g = Some (Items (Sort lq1))"
          using Some by (simp add: queueItems_def)
        then have y: "Y = the (queueItems em1 g)"
          using g q1 by (simp add: Y_def)
        show ?thesis
          using runQueue_props[OF r Some] runQueue_inOrder[OF r Some] y by simp
      qed
    qed
    have s12: "stage (tr1 @ tr2) err2 stop2"
      using stage_append[of tr1 err1 tr2 err2 stop2] p1(1) n1 s2 by simp
    have st2: "sameState em2 em" using s2 p1(2) sameState_trans by blast
    have q2: "queueItems em2 = queueItems em" using st2 by (simp add: sameState_def)
    have o12: "inOrder (tr1 @ tr2) (X @ Y)" using inOrder_append[OF o1 l1] s2 by simp
    have stop_case: "tr = tr1 @ tr2 \<Longrightarrow> err = err2 \<Longrightarrow> em' = em2 \<Longrightarrow> ?thesis"
      using s12 st2 inOrder_extend[OF o12, of Z] d by (auto simp: nm_def)
    show ?thesis
    proof (cases stop2)
      case True
      with fe lq0 r1 n1 r2 have "tr = tr1 @ tr2" "err = err2" "em' = em2"
        by (simp_all add: FireEvent_def g2_def nm_def)
      then show ?thesis by (rule stop_case)
    next
      case n2: False
      then have l2: "length (tr1 @ tr2) = length (X @ Y)" using s2 l1 by simp
      show ?thesis
      proof (cases "listeners em2 Wildcard")
        case None
        with fe lq0 r1 n1 r2 n2 have "tr = tr1 @ tr2" "err = err2" "em' = em2"
          by (simp_all add: FireEvent_def g2_def nm_def)
        then show ?thesis by (rule stop_case)
      next
        case (Some lq2)
        obtain em3 e3 err3 tr3 stop3 where r3: "runQueue em2 Wildcard lq2 e2 = (em3, e3, err3, tr3, stop3)"
          by (cases "runQueue em2 Wildcard lq2 e2") auto
        note p3 = runQueue_props[OF r3 Some]
        have "queueItems em2 Wildcard = Some (Items (Sort lq2))"
          using Some by (simp add: queueItems_def)
        then have z: "Z = the (queueItems em2 Wildcard)"
          using q2 by (simp add: Z_def)
        have o3: "inOrder tr3 Z" using runQueue_inOrder[OF r3 Some] z by simp
        from fe lq0 r1 n1 r2 n2 Some r3
        have eq: "tr = (tr1 @ tr2) @ tr3" "err = err3" "em' = em3"
          by (simp_all add: FireEvent_def g2_def nm_def)
        have "stage ((tr1 @ tr2) @ tr3) err3 stop3"
          using stage_append[of "tr1 @ tr2" err2 tr3 err3 stop3] s12 n2 p3(1) by simp
        moreover have "sameState em3 em" using p3(2) st2 sameState_trans by blast
        moreover have "inOrder ((tr1 @ tr2) @ tr3) ((X @ Y) @ Z)"
          using inOrder_append[OF o12 l2 o3] .
        ultimately show ?thesis using eq d by (auto simp: nm_def)
      qed
    qed
  qed
qed

lemma FireEvent_chain: "FireEvent em e = (em', e', out, tr) \<Longrightarrow> chain tr out"
  using FireEvent_props[of em e em' e' out tr] stage_chain by blast

section \<open>The paths of \<open>Fire\<close> and the invariant of the manager\<close>

lemma reset_new: "reset e = newBasicEvent"
  by (simp add: reset_def newBasicEvent_def)

lemma SetName_good: "goodName nm = Inr n \<Longrightarrow> SetName n e = Inr (e\<lparr>ename := n\<rparr>)"
  by (simp add: SetName_def goodName_idem)

lemma Fire_panic: "goodName nm = Inl p \<Longrightarrow> Fire em nm args = (em, Panicked p, [])"
  by (simp add: Fire_def)

lemma Fire_catalog:
  "goodName nm = Inr n \<Longrightarrow> events em n = Some e \<Longrightarrow> FireEvent em e = (em1, e1, out, tr) \<Longrightarrow>
     Fire em nm args = (em1\<lparr>events := (events em1)(n \<mapsto> e1)\<rparr>, out, tr)"
  by (simp add: Fire_def)

lemma Fire_scratch_returned:
  "goodName nm = Inr n \<Longrightarrow> events em n = None \<Longrightarrow> poolGet em = (e0, em0) \<Longrightarrow>
   FireEvent em0 (Fill None args (e0\<lparr>ename := n\<rparr>)) = (em1, e2, Returned err, tr) \<Longrightarrow>
     Fire em nm args = (poolPut (reset e2) em1, Returned err, tr)"
  by (simp add: Fire_def SetName_good)

lemma Fire_scratch_panicked:
  "goodName nm = Inr n \<Longrightarrow> events em n = None \<Longrightarrow> poolGet em = (e0, em0) \<Longrightarrow>
   FireEvent em0 (Fill None args (e0\<lparr>ename := n\<rparr>)) = (em1, e2, Panicked q, tr) \<Longrightarrow>
     Fire em nm args = (em1, Panicked q, tr)"
  by (simp add: Fire_def SetName_good)

lemma Fire_scratch:
  assumes "goodName nm = Inr n" and "events em n = None" and "poolGet em = (e0, em0)"
    and "FireEvent em0 (Fill None args (e0\<lparr>ename := n\<rparr>)) = (em1, e2, out, tr)"
  shows "snd (Fire em nm args) = (out, tr)"
    and "fst (Fire em nm args) = em1 \<or> fst (Fire em nm args) = poolPut (reset e2) em1"
proof -
  show "snd (Fire em nm args) = (out, tr)"
  proof (cases out)
    case (Panicked q)
    then show ?thesis using Fire_scratch_panicked[OF assms(1-3), of args em1 e2 q tr] assms(4) by simp
  next
    case (Returned err)
    then show ?thesis using Fire_scratch_returned[OF assms(1-3), of args em1 e2 err tr] assms(4) by simp
  qed
  show "fst (Fire em nm args) = em1 \<or> fst (Fire em nm args) = poolPut (reset e2) em1"
  proof (cases out)
    case (Panicked q)
    then show ?thesis using Fire_scratch_panicked[OF assms(1-3), of args em1 e2 q tr] assms(4) by simp
  next
    case (Returned err)
    then show ?thesis using Fire_scratch_returned[OF assms(1-3), of args em1 e2 err tr] assms(4) by simp
  qed
qed

lemma poolGet_props:
  "poolGet em = (e0, em0) \<Longrightarrow>
     name em0 = name em \<and> events em0 = events em \<and> listeners em0 = listeners em \<and>
     listenedNames em0 = listenedNames em \<and>
     (case pool em of [] \<Rightarrow> e0 = newBasicEvent \<and> pool em0 = [] | x # xs \<Rightarrow> e0 = x \<and> pool em0 = xs)"
  by (auto simp: poolGet_def split: list.splits)

lemma wellFormed_New: "wellFormed (NewManager x)"
  by (simp add: wellFormed_def NewManager_def)

lemma wellFormed_sameState: "wellFormed em \<Longrightarrow> sameState em' em \<Longrightarrow> wellFormed em'"
  using sameState_dom[of em' em] by (simp add: wellFormed_def sameState_def)

lemma wellFormed_FireEvent: "wellFormed em \<Longrightarrow> wellFormed (fst (FireEvent em e))"
proof -
  assume w: "wellFormed em"
  obtain em' e' err tr where f: "FireEvent em e = (em', e', err, tr)" by (cases "FireEvent em e") auto
  then show ?thesis using FireEvent_props[OF f] w wellFormed_sameState by auto
qed

lemma wellFormed_Fire: "wellFormed em \<Longrightarrow> wellFormed (fst (Fire em nm args))"
proof -
  assume w: "wellFormed em"
  show ?thesis
  proof (cases "goodName nm")
    case (Inl p)
    then show ?thesis using w by (simp add: Fire_panic)
  next
    case (Inr n)
    show ?thesis
    proof (cases "events em n")
      case (Some e)
      obtain em1 e1 err tr where f: "FireEvent em e = (em1, e1, err, tr)" by (cases "FireEvent em e") auto
      have "wellFormed em1" using wellFormed_FireEvent[OF w, of e] f by simp
      then have "wellFormed (em1\<lparr>events := (events em1)(n \<mapsto> e1)\<rparr>)"
        using goodName_idem[OF Inr] by (simp add: wellFormed_def)
      then show ?thesis using Fire_catalog[OF Inr Some f] by simp
    next
      case None
      obtain e0 em0 where g: "poolGet em = (e0, em0)" by (cases "poolGet em") auto
      obtain em1 e2 err tr where f: "FireEvent em0 (Fill None args (e0\<lparr>ename := n\<rparr>)) = (em1, e2, err, tr)"
        by (cases "FireEvent em0 (Fill None args (e0\<lparr>ename := n\<rparr>))") auto
      have "wellFormed em0" using w poolGet_props[OF g]
        by (auto simp: wellFormed_def split: list.splits)
      then have w1: "wellFormed em1" using wellFormed_FireEvent[of em0] f by (metis fst_conv)
      then have "wellFormed (poolPut (reset e2) em1)"
        by (simp add: wellFormed_def poolPut_def reset_new)
      then show ?thesis using Fire_scratch(2)[OF Inr None g f] w1 by auto
    qed
  qed
qed

lemma MustFire_state: "fst (MustFire em nm args) = fst (Fire em nm args)"
  by (cases "Fire em nm args") (auto simp: MustFire_def split: outcome.splits option.splits)

lemma wellFormed_On: "wellFormed em \<Longrightarrow> wellFormed (fst (On em nm lst prio))"
  by (auto simp: On_def wellFormed_def Let_def split: sum.splits option.splits)

lemma wellFormed_ClearListeners: "wellFormed em \<Longrightarrow> wellFormed (ClearListeners em nm)"
  by (auto simp: ClearListeners_def wellFormed_def)

lemma wellFormed_AddEvent: "wellFormed em \<Longrightarrow> wellFormed (fst (AddEvent em e))"
  by (auto simp: AddEvent_def wellFormed_def goodName_idem split: sum.splits)

lemma wellFormed_DelEvent: "wellFormed em \<Longrightarrow> wellFormed (DelEvent em nm)"
  by (auto simp: DelEvent_def wellFormed_def split: if_splits)

lemma wellFormed_FireStored:
  assumes "wellFormed em"
  shows "wellFormed (apply_op em (OpFireStored nm))"
proof (cases "events em nm")
  case None
  then show ?thesis using assms by simp
next
  case (Some e)
  obtain em1 e1 out tr where f: "FireEvent em e = (em1, e1, out, tr)" by (cases "FireEvent em e") auto
  have g: "goodName nm = Inr nm" using assms Some by (simp add: wellFormed_def)
  have "wellFormed em1" using wellFormed_FireEvent[OF assms, of e] f by simp
  then have "wellFormed (em1\<lparr>events := (events em1)(nm \<mapsto> e1)\<rparr>)"
    using g by (simp add: wellFormed_def)
  then show ?thesis using Some f by simp
qed

lemma wellFormed_apply_op: "wellFormed em \<Longrightarrow> wellFormed (apply_op em x)"
proof (cases x)
  case (OpMustFire nm args)
  assume "wellFormed em"
  then show ?thesis using OpMustFire wellFormed_Fire by (simp add: MustFire_state)
next
  case (OpFireStored nm)
  assume "wellFormed em"
  then show ?thesis using OpFireStored wellFormed_FireStored by simp
qed (simp_all add: wellFormed_On wellFormed_Fire wellFormed_FireEvent wellFormed_ClearListeners
       wellFormed_AddEvent wellFormed_DelEvent, simp_all add: wellFormed_def ClearEvents_def Clear_def)

lemma wellFormed_run: "wellFormed em \<Longrightarrow> wellFormed (run ops em)"
  unfolding run_def by (induction ops arbitrary: em) (simp_all add: wellFormed_apply_op)

lemma wellFormed_reachable: "wellFormed (run ops (NewManager x))"
  using wellFormed_run wellFormed_New by blast

lemma Fire_chain:
  assumes "Fire em nm args = (em2, out, tr2)"
  shows "(\<exists>p. goodName nm = Inl p \<and> out = Panicked p \<and> tr2 = [] \<and> em2 = em) \<or>
         ((\<exists>n. goodName nm = Inr n) \<and> chain tr2 out)"
proof (cases "goodName nm")
  case (Inl p)
  then show ?thesis using assms by (auto simp: Fire_panic)
next
  case (Inr n)
  show ?thesis
  proof (cases "events em n")
    case (Some ev)
    obtain m1 b1 r t where f: "FireEvent em ev = (m1, b1, r, t)" by (cases "FireEvent em ev") auto
    from Fire_catalog[OF Inr Some f, of args] assms have "tr2 = t" "out = r" by simp_all
    then show ?thesis using FireEvent_chain[OF f] Inr by simp
  next
    case None
    obtain e0 em0 where g: "poolGet em = (e0, em0)" by (cases "poolGet em") auto
    obtain m1 b1 r t where f: "FireEvent em0 (Fill None args (e0\<lparr>ename := n\<rparr>)) = (m1, b1, r, t)"
      by (cases "FireEvent em0 (Fill None args (e0\<lparr>ename := n\<rparr>))") auto
    from Fire_scratch(1)[OF Inr None g f] assms have "tr2 = t" "out = r" by simp_all
    then show ?thesis using FireEvent_chain[OF f] Inr by simp
  qed
qed

section \<open>Stopping a dispatch\<close>

text \<open>
  Claim C3. During \<open>FireEvent\<close>, when a listener's \<open>Handle\<close> returns a non-nil error
  the dispatch stops at once: that call is the last one made, so no later listener of
  the same queue or of a later queue (group pattern, wildcard) is called, the listeners
  called are the first ones of the dispatch order, and the error is what \<open>FireEvent\<close>
  returns. The same holds of \<open>Fire\<close>, which returns the error of its dispatch.
\<close>

theorem dispatch_stops_on_error:
  "(FireEvent em e = (em1, e1, out1, tr) \<and> i < length tr \<and>
      returned (tr ! i) = Returned (Some x) \<longrightarrow>
      Suc i = length tr \<and> out1 = Returned (Some x) \<and>
      map called tr = take (Suc i) (ids (dispatchOrder em (Name e)))) \<and>
   (Fire em nm args = (em2, out, tr2) \<and> j < length tr2 \<and>
      returned (tr2 ! j) = Returned (Some y) \<longrightarrow>
      Suc j = length tr2 \<and> out = Returned (Some y))"
proof (intro conjI impI)
  assume a: "FireEvent em e = (em1, e1, out1, tr) \<and> i < length tr \<and>
      returned (tr ! i) = Returned (Some x)"
  then have f: "FireEvent em e = (em1, e1, out1, tr)" and i: "i < length tr"
    and r: "returned (tr ! i) = Returned (Some x)" by blast+
  have l: "Suc i = length tr \<and> out1 = Returned (Some x)"
    using chain_error_last[OF FireEvent_chain[OF f] i r] .
  then show "Suc i = length tr" and "out1 = Returned (Some x)" by blast+
  have "inOrder tr (dispatchOrder em (Name e))" using FireEvent_props[OF f] by blast
  then show "map called tr = take (Suc i) (ids (dispatchOrder em (Name e)))"
    using l by (simp add: inOrder_def)
next
  assume a: "Fire em nm args = (em2, out, tr2) \<and> j < length tr2 \<and>
      returned (tr2 ! j) = Returned (Some y)"
  then have f: "Fire em nm args = (em2, out, tr2)" and j: "j < length tr2"
    and r: "returned (tr2 ! j) = Returned (Some y)" by blast+
  have "tr2 \<noteq> []" using j by auto
  then have c: "chain tr2 out" using Fire_chain[OF f] by blast
  from chain_error_last[OF c j r]
  show "Suc j = length tr2" and "out = Returned (Some y)" by blast+
qed

theorem dispatch_stops_on_error_witness:
  "snd (snd (FireEvent failingManager (basicEvent ''app.run''))) =
     (Returned (Some (Error ''boom'')),
      [(1, Returned None, False), (2, Returned (Some (Error ''boom'')), False)]) \<and>
   ids (dispatchOrder failingManager ''app.run'') = [1, 2, 3, 4] \<and>
   snd (Fire failingManager ''app.run'' []) =
     (Returned (Some (Error ''boom'')),
      [(1, Returned None, False), (2, Returned (Some (Error ''boom'')), False)])"
proof -
  have d: "ids (dispatchOrder failingManager ''app.run'') = [1, 2, 3, 4]"
    by code_simp
  have t: "snd (snd (snd (FireEvent failingManager (basicEvent ''app.run'')))) =
             [(1, Returned None, False), (2, Returned (Some (Error ''boom'')), False)]"
    by code_simp
  have u: "snd (snd (Fire failingManager ''app.run'' [])) =
             [(1, Returned None, False), (2, Returned (Some (Error ''boom'')), False)]"
    by code_simp
  obtain em1 e1 out1 tr where f: "FireEvent failingManager (basicEvent ''app.run'') = (em1, e1, out1, tr)"
    by (cases "FireEvent failingManager (basicEvent ''app.run'')") auto
  obtain em2 out tr2 where g: "Fire failingManager ''app.run'' [] = (em2, out, tr2)"
    by (cases "Fire failingManager ''app.run'' []") auto
  have tr: "tr = [(1, Returned None, False), (2, Returned (Some (Error ''boom'')), False)]"
    using t f by simp
  have tr2: "tr2 = [(1, Returned None, False), (2, Returned (Some (Error ''boom'')), False)]"
    using u g by simp
  from dispatch_stops_on_error[of failingManager "basicEvent ''app.run''" em1 e1 out1 tr 1 "Error ''boom''"
      "''app.run''" "[]" em2 out tr2 1 "Error ''boom''"] f g tr tr2 d
  show ?thesis by (simp add: returned_def)
qed

text \<open>
  Claim C4. When a listener sets the abort flag of the event and returns nil, the
  dispatch stops in the same way: that call is the last one made, the listeners called
  are the first ones of the dispatch order, and \<open>FireEvent\<close> and \<open>Fire\<close> return nil,
  not an error.
\<close>

theorem dispatch_stops_on_abort:
  "(FireEvent em e = (em1, e1, out1, tr) \<and> i < length tr \<and>
      returned (tr ! i) = Returned None \<and> abortedAfter (tr ! i) \<longrightarrow>
      Suc i = length tr \<and> out1 = Returned None \<and>
      map called tr = take (Suc i) (ids (dispatchOrder em (Name e)))) \<and>
   (Fire em nm args = (em2, out, tr2) \<and> j < length tr2 \<and>
      returned (tr2 ! j) = Returned None \<and> abortedAfter (tr2 ! j) \<longrightarrow>
      Suc j = length tr2 \<and> out = Returned None)"
proof (intro conjI impI)
  assume a: "FireEvent em e = (em1, e1, out1, tr) \<and> i < length tr \<and>
      returned (tr ! i) = Returned None \<and> abortedAfter (tr ! i)"
  then have f: "FireEvent em e = (em1, e1, out1, tr)" and i: "i < length tr"
    and r: "returned (tr ! i) = Returned None" and b: "abortedAfter (tr ! i)" by blast+
  have l: "Suc i = length tr \<and> out1 = Returned None"
    using chain_abort_last[OF FireEvent_chain[OF f] i b] r by simp
  then show "Suc i = length tr" and "out1 = Returned None" by blast+
  have "inOrder tr (dispatchOrder em (Name e))" using FireEvent_props[OF f] by blast
  then show "map called tr = take (Suc i) (ids (dispatchOrder em (Name e)))"
    using l by (simp add: inOrder_def)
next
  assume a: "Fire em nm args = (em2, out, tr2) \<and> j < length tr2 \<and>
      returned (tr2 ! j) = Returned None \<and> abortedAfter (tr2 ! j)"
  then have f: "Fire em nm args = (em2, out, tr2)" and j: "j < length tr2"
    and r: "returned (tr2 ! j) = Returned None" and b: "abortedAfter (tr2 ! j)" by blast+
  have "tr2 \<noteq> []" using j by auto
  then have c: "chain tr2 out" using Fire_chain[OF f] by blast
  from chain_abort_last[OF c j b] r
  show "Suc j = length tr2" and "out = Returned None" by simp_all
qed

theorem dispatch_stops_on_abort_witness:
  "snd (snd (FireEvent abortingManager (basicEvent ''app.run''))) =
     (Returned None, [(1, Returned None, False), (2, Returned None, True)]) \<and>
   ids (dispatchOrder abortingManager ''app.run'') = [1, 2, 3, 4] \<and>
   snd (Fire abortingManager ''app.run'' []) =
     (Returned None, [(1, Returned None, False), (2, Returned None, True)])"
proof -
  have d: "ids (dispatchOrder abortingManager ''app.run'') = [1, 2, 3, 4]"
    by code_simp
  have t: "snd (snd (snd (FireEvent abortingManager (basicEvent ''app.run'')))) =
             [(1, Returned None, False), (2, Returned None, True)]"
    by code_simp
  have u: "snd (snd (Fire abortingManager ''app.run'' [])) =
             [(1, Returned None, False), (2, Returned None, True)]"
    by code_simp
  obtain em1 e1 out1 tr where f: "FireEvent abortingManager (basicEvent ''app.run'') = (em1, e1, out1, tr)"
    by (cases "FireEvent abortingManager (basicEvent ''app.run'')") auto
  obtain em2 out tr2 where g: "Fire abortingManager ''app.run'' [] = (em2, out, tr2)"
    by (cases "Fire abortingManager ''app.run'' []") auto
  have tr: "tr = [(1, Returned None, False), (2, Returned None, True)]" using t f by simp
  have tr2: "tr2 = [(1, Returned None, False), (2, Returned None, True)]" using u g by simp
  from dispatch_stops_on_abort[of abortingManager "basicEvent ''app.run''" em1 e1 out1 tr 1
      "''app.run''" "[]" em2 out tr2 1] f g tr tr2 d
  show ?thesis by (simp add: returned_def abortedAfter_def)
qed

section \<open>Lookup and cleanup\<close>

text \<open>
  Claim C10. \<open>HasListeners\<close>, \<open>ClearListeners\<close>, \<open>GetEvent\<close>, \<open>HasEvent\<close> and
  \<open>DelEvent\<close> take any string as it is: they have no panic among their results and
  look the name up untrimmed and unvalidated. For a name that is not there,
  \<open>HasListeners\<close> and \<open>HasEvent\<close> answer false, \<open>GetEvent\<close> finds nothing, and
  \<open>ClearListeners\<close> and \<open>DelEvent\<close> leave the manager as it is.
\<close>

theorem lookups_never_validate:
  "HasListeners em nm = (nm \<in> dom (listenedNames em)) \<and>
   HasEvent em nm = (nm \<in> dom (events em)) \<and>
   GetEvent em nm = events em nm \<and>
   (listenedNames em nm = None \<longrightarrow> \<not> HasListeners em nm \<and> ClearListeners em nm = em) \<and>
   (events em nm = None \<longrightarrow>
      \<not> HasEvent em nm \<and> GetEvent em nm = None \<and> DelEvent em nm = em)"
  by (auto simp: HasListeners_def HasEvent_def GetEvent_def ClearListeners_def DelEvent_def)

theorem lookups_never_validate_witness:
  "listenedNames smallManager '''' = None \<and> events smallManager ''1 x'' = None \<and>
   \<not> HasListeners smallManager '''' \<and> ClearListeners smallManager '''' = smallManager \<and>
   \<not> HasEvent smallManager ''1 x'' \<and> GetEvent smallManager ''1 x'' = None \<and>
   DelEvent smallManager ''1 x'' = smallManager \<and>
   HasListeners smallManager ''x'' \<and> \<not> HasListeners smallManager '' x''"
proof -
  have a: "listenedNames smallManager '''' = None" by code_simp
  have b: "events smallManager ''1 x'' = None" by code_simp
  have c: "HasListeners smallManager ''x'' \<and> \<not> HasListeners smallManager '' x''" by code_simp
  from lookups_never_validate[of smallManager "''''"] lookups_never_validate[of smallManager "''1 x''"] a b c
  show ?thesis by (simp add: domIff)
qed

section \<open>Registration\<close>

lemma TrimLeft_asciiSpaces:
  "list_all (\<lambda>c. asciiSpace (of_char c)) s \<Longrightarrow> TrimLeft s = []"
proof (induction s)
  case Nil
  then show ?case by (subst TrimLeft.simps) simp
next
  case (Cons c cs)
  then have a: "asciiSpace (of_char c)" by simp
  have w: "spaceWidth (of_char c # map of_char cs) = 1"
    using a by (cases cs; cases "tl cs") auto
  have "TrimLeft (c # cs) = TrimLeft cs"
    by (subst TrimLeft.simps) (simp add: w)
  then show ?case using Cons by simp
qed

lemma TrimSpace_asciiSpaces:
  "list_all (\<lambda>c. asciiSpace (of_char c)) s \<Longrightarrow> TrimSpace s = []"
proof -
  assume "list_all (\<lambda>c. asciiSpace (of_char c)) s"
  then have "TrimLeft s = []" by (rule TrimLeft_asciiSpaces)
  moreover have "TrimRightRev [] = []" by (subst TrimRightRev.simps) simp
  ultimately show ?thesis by (simp add: TrimSpace_def)
qed

text \<open>
  Claim C7, as amended. \<open>On\<close> trims the name first. It panics, leaving the manager as
  it was, when the trimmed name is empty (so for an empty name and for a name of white
  space only), when the trimmed name does not match the pattern (a letter, then letters,
  digits, underscores, hyphens, dots and asterisks), and when the listener is nil.
  Otherwise it does not panic and appends the item of the priority and the listener to
  the queue of the trimmed name, a new queue with a count of 1 on the first registration
  of that name; the other names, the catalog and the pool stay as they were.
\<close>

theorem On_validates_then_appends:
  "(TrimSpace nm = [] \<longrightarrow> On em nm lst prio = (em, Some EmptyName)) \<and>
   (list_all (\<lambda>c. asciiSpace (of_char c)) nm \<longrightarrow> On em nm lst prio = (em, Some EmptyName)) \<and>
   (TrimSpace nm \<noteq> [] \<and> \<not> goodNameReg (TrimSpace nm) \<longrightarrow>
      On em nm lst prio = (em, Some InvalidName)) \<and>
   (TrimSpace nm \<noteq> [] \<and> goodNameReg (TrimSpace nm) \<and> lst = None \<longrightarrow>
      On em nm lst prio = (em, Some (NilListener (TrimSpace nm)))) \<and>
   (TrimSpace nm \<noteq> [] \<and> goodNameReg (TrimSpace nm) \<and> lst = Some l \<longrightarrow>
      snd (On em nm lst prio) = None \<and>
      listeners (fst (On em nm lst prio)) (TrimSpace nm) =
        Some \<lparr>items = (case listeners em (TrimSpace nm) of None \<Rightarrow> [] | Some lq \<Rightarrow> items lq)
                        @ [\<lparr>priority = prio, listener = l\<rparr>]\<rparr> \<and>
      listenedNames (fst (On em nm lst prio)) (TrimSpace nm) =
        (case listeners em (TrimSpace nm) of
           None \<Rightarrow> Some 1
         | Some lq \<Rightarrow> Some ((case listenedNames em (TrimSpace nm) of None \<Rightarrow> 0 | Some k \<Rightarrow> k) + 1)) \<and>
      (\<forall>k. k \<noteq> TrimSpace nm \<longrightarrow>
         listeners (fst (On em nm lst prio)) k = listeners em k \<and>
         listenedNames (fst (On em nm lst prio)) k = listenedNames em k) \<and>
      events (fst (On em nm lst prio)) = events em \<and>
      pool (fst (On em nm lst prio)) = pool em \<and>
      name (fst (On em nm lst prio)) = name em)"
proof (intro conjI impI)
  show "On em nm lst prio = (em, Some EmptyName)" if "TrimSpace nm = []"
    using that by (simp add: On_def goodName_def)
  show "On em nm lst prio = (em, Some EmptyName)" if "list_all (\<lambda>c. asciiSpace (of_char c)) nm"
    using TrimSpace_asciiSpaces[OF that] by (simp add: On_def goodName_def)
  show "On em nm lst prio = (em, Some InvalidName)"
    if "TrimSpace nm \<noteq> [] \<and> \<not> goodNameReg (TrimSpace nm)"
    using that by (simp add: On_def goodName_def)
  show "On em nm lst prio = (em, Some (NilListener (TrimSpace nm)))"
    if "TrimSpace nm \<noteq> [] \<and> goodNameReg (TrimSpace nm) \<and> lst = None"
    using that by (simp add: On_def goodName_def)
next
  assume a: "TrimSpace nm \<noteq> [] \<and> goodNameReg (TrimSpace nm) \<and> lst = Some l"
  then have g: "goodName nm = Inr (TrimSpace nm)" by (simp add: goodName_def)
  show "snd (On em nm lst prio) = None"
    using a g by (simp add: On_def Let_def split: option.splits)
  show "listeners (fst (On em nm lst prio)) (TrimSpace nm) =
        Some \<lparr>items = (case listeners em (TrimSpace nm) of None \<Rightarrow> [] | Some lq \<Rightarrow> items lq)
                        @ [\<lparr>priority = prio, listener = l\<rparr>]\<rparr>"
    using a g by (simp add: On_def Let_def Push_def emptyQueue_def split: option.splits)
  show "listenedNames (fst (On em nm lst prio)) (TrimSpace nm) =
        (case listeners em (TrimSpace nm) of
           None \<Rightarrow> Some 1
         | Some lq \<Rightarrow> Some ((case listenedNames em (TrimSpace nm) of None \<Rightarrow> 0 | Some k \<Rightarrow> k) + 1))"
    using a g by (simp add: On_def Let_def split: option.splits)
  show "\<forall>k. k \<noteq> TrimSpace nm \<longrightarrow>
         listeners (fst (On em nm lst prio)) k = listeners em k \<and>
         listenedNames (fst (On em nm lst prio)) k = listenedNames em k"
    using a g by (simp add: On_def Let_def split: option.splits)
  show "events (fst (On em nm lst prio)) = events em"
    using a g by (simp add: On_def Let_def split: option.splits)
  show "pool (fst (On em nm lst prio)) = pool em"
    using a g by (simp add: On_def Let_def split: option.splits)
  show "name (fst (On em nm lst prio)) = name em"
    using a g by (simp add: On_def Let_def split: option.splits)
qed

theorem On_validates_then_appends_witness:
  "TrimSpace ''  '' = [] \<and> On smallManager ''  '' (Some (nopListener 9)) 0 = (smallManager, Some EmptyName) \<and>
   TrimSpace ''9x'' \<noteq> [] \<and> \<not> goodNameReg (TrimSpace ''9x'') \<and>
   On smallManager ''9x'' (Some (nopListener 9)) 0 = (smallManager, Some InvalidName) \<and>
   goodNameReg (TrimSpace ''x'') \<and>
   On smallManager ''x'' None 0 = (smallManager, Some (NilListener ''x'')) \<and>
   snd (On smallManager ''x'' (Some (nopListener 9)) 4) = None \<and>
   map (\<lambda>li. (priority li, lid (listener li)))
     (items (the (listeners (fst (On smallManager ''x'' (Some (nopListener 9)) 4)) ''x''))) =
     [(0, 1), (4, 9)] \<and>
   listenedNames (fst (On smallManager ''x'' (Some (nopListener 9)) 4)) ''x'' = Some 2 \<and>
   listenedNames (fst (On smallManager ''a.*'' (Some (nopListener 9)) 4)) ''a.*'' = Some 1"
proof -
  have h1: "TrimSpace ''  '' = []" by code_simp
  have h2: "TrimSpace ''9x'' \<noteq> [] \<and> \<not> goodNameReg (TrimSpace ''9x'')" by code_simp
  have h3: "TrimSpace ''x'' = ''x'' \<and> goodNameReg ''x''" by code_simp
  have h4: "TrimSpace ''a.*'' = ''a.*'' \<and> goodNameReg ''a.*''" by code_simp
  have l1: "map (\<lambda>li. (priority li, lid (listener li))) (items (the (listeners smallManager ''x''))) = [(0, 1)]
            \<and> listeners smallManager ''x'' \<noteq> None \<and> listenedNames smallManager ''x'' = Some 1"
    by code_simp
  have l2: "listeners smallManager ''a.*'' = None" by code_simp
  from On_validates_then_appends[of "''  ''" smallManager "Some (nopListener 9)" 0]
       On_validates_then_appends[of "''9x''" smallManager "Some (nopListener 9)" 0]
       On_validates_then_appends[of "''x''" smallManager None 0]
       On_validates_then_appends[of "''x''" smallManager "Some (nopListener 9)" 4 "nopListener 9"]
       On_validates_then_appends[of "''a.*''" smallManager "Some (nopListener 9)" 4 "nopListener 9"]
       h1 h2 h3 h4 l1 l2
  show ?thesis by (auto simp: nopListener_def split: option.splits)
qed

text \<open>
  The claim as stated, about the name as given, fails at the name \<open>" app"\<close>: it does
  not match the pattern, and \<open>On\<close> does not panic but registers the listener, under
  \<open>"app"\<close> and not under the name given.
\<close>

theorem On_untrimmed_name_counterexample:
  "'' app'' \<noteq> [] \<and> \<not> goodNameReg '' app'' \<and>
   snd (On (NewManager ''m'') '' app'' (Some (nopListener 1)) 0) = None \<and>
   listeners (fst (On (NewManager ''m'') '' app'' (Some (nopListener 1)) 0)) '' app'' = None \<and>
   map (\<lambda>li. lid (listener li))
     (items (the (listeners (fst (On (NewManager ''m'') '' app'' (Some (nopListener 1)) 0)) ''app''))) = [1]"
  by code_simp

section \<open>The two listener maps\<close>

text \<open>
  Claim C8. After any sequence of operations on a new manager (\<open>On\<close>,
  \<open>ClearListeners\<close> and \<open>Clear\<close> among them) a name is in \<open>listenedNames\<close> exactly when
  it has a queue in \<open>listeners\<close>. \<open>ClearListeners\<close> removes both entries of a name, so
  that \<open>HasListeners\<close> is false afterwards, and changes nothing for a name that was
  never registered.
\<close>

theorem listenedNames_match_listeners:
  "dom (listenedNames (run ops (NewManager x))) = dom (listeners (run ops (NewManager x))) \<and>
   listenedNames (ClearListeners (run ops (NewManager x)) nm) nm = None \<and>
   listeners (ClearListeners (run ops (NewManager x)) nm) nm = None \<and>
   \<not> HasListeners (ClearListeners (run ops (NewManager x)) nm) nm \<and>
   (listenedNames (run ops (NewManager x)) nm = None \<longrightarrow>
      ClearListeners (run ops (NewManager x)) nm = run ops (NewManager x))"
proof -
  define em where "em = run ops (NewManager x)"
  have "wellFormed em" unfolding em_def by (rule wellFormed_reachable)
  then have d: "dom (listenedNames em) = dom (listeners em)" by (simp add: wellFormed_def)
  have n: "listenedNames em nm = None \<Longrightarrow> listeners em nm = None"
    using d by (metis domIff)
  have "listeners (ClearListeners em nm) nm = None"
    using n by (simp add: ClearListeners_def)
  moreover have "listenedNames (ClearListeners em nm) nm = None"
    by (auto simp: ClearListeners_def)
  moreover have "listenedNames em nm = None \<longrightarrow> ClearListeners em nm = em"
    by (simp add: ClearListeners_def)
  ultimately show ?thesis using d by (simp add: HasListeners_def em_def)
qed

theorem listenedNames_match_listeners_witness:
  "clearedManager =
     run [OpOn ''x'' (Some (nopListener 1)) 0, OpOn ''x'' (Some (nopListener 2)) 7,
          OpOn ''y.*'' (Some (nopListener 3)) 0, OpOn ''9'' (Some (nopListener 4)) 0,
          OpFire ''x'' [], OpClearListeners ''y.*''] (NewManager ''m'') \<and>
   dom (listenedNames clearedManager) = dom (listeners clearedManager) \<and>
   HasListeners clearedManager ''x'' \<and>
   \<not> HasListeners (ClearListeners clearedManager ''x'') ''x'' \<and>
   listeners (ClearListeners clearedManager ''x'') ''x'' = None \<and>
   listenedNames clearedManager ''y.*'' = None \<and>
   ClearListeners clearedManager ''y.*'' = clearedManager"
proof -
  have a: "listenedNames clearedManager ''y.*'' = None" by code_simp
  have b: "HasListeners clearedManager ''x''" by code_simp
  from listenedNames_match_listeners[of _ "''m''" "''x''"]
       listenedNames_match_listeners[of _ "''m''" "''y.*''"] a b
  show ?thesis unfolding clearedManager_def by blast
qed

section \<open>Firing by name\<close>

text \<open>
  Claim C9, as amended. \<open>MustFire\<close> leaves the manager and makes the calls that
  \<open>Fire\<close> does. It panics exactly when \<open>Fire\<close> panics or returns a non-nil error:
  with the panic of \<open>Fire\<close> in the first case, with the error in the second; it
  returns normally when \<open>Fire\<close> returns nil. \<open>Fire\<close> panics exactly when the name
  fails validation, with the panic of the validation, or when a listener it calls
  panics, with the panic of that listener, which is then the last one called.
\<close>

theorem MustFire_panics_with_Fire:
  "fst (MustFire em nm args) = fst (Fire em nm args) \<and>
   snd (snd (MustFire em nm args)) = snd (snd (Fire em nm args)) \<and>
   fst (snd (MustFire em nm args)) =
     (case fst (snd (Fire em nm args)) of
        Panicked p \<Rightarrow> Panicked p
      | Returned None \<Rightarrow> Returned ()
      | Returned (Some err) \<Rightarrow> Panicked (PanicErr err)) \<and>
   ((\<exists>p. fst (snd (MustFire em nm args)) = Panicked p) =
      ((\<exists>p. fst (snd (Fire em nm args)) = Panicked p) \<or>
       (\<exists>err. fst (snd (Fire em nm args)) = Returned (Some err)))) \<and>
   (fst (snd (Fire em nm args)) = Panicked q \<longrightarrow>
      goodName nm = Inl q \<or>
      (snd (snd (Fire em nm args)) \<noteq> [] \<and>
       returned (last (snd (snd (Fire em nm args)))) = Panicked q)) \<and>
   (goodName nm = Inl q \<longrightarrow> fst (snd (Fire em nm args)) = Panicked q) \<and>
   (i < length (snd (snd (Fire em nm args))) \<and>
      returned (snd (snd (Fire em nm args)) ! i) = Panicked q \<longrightarrow>
      fst (snd (Fire em nm args)) = Panicked q)"
proof -
  obtain em1 out tr where f: "Fire em nm args = (em1, out, tr)" by (cases "Fire em nm args") auto
  have m: "MustFire em nm args =
             (em1, (case out of Panicked p \<Rightarrow> Panicked p | Returned None \<Rightarrow> Returned ()
                    | Returned (Some err) \<Rightarrow> Panicked (PanicErr err)), tr)"
    using f by (simp add: MustFire_def split: outcome.splits option.splits)
  have iff: "(\<exists>p. (case out of Panicked p \<Rightarrow> Panicked p | Returned None \<Rightarrow> Returned ()
                    | Returned (Some err) \<Rightarrow> Panicked (PanicErr err)) = Panicked p) =
             ((\<exists>p. out = Panicked p) \<or> (\<exists>err. out = Returned (Some err)))"
    by (auto split: outcome.splits option.splits)
  note c = Fire_chain[OF f]
  have p1: "out = Panicked q \<longrightarrow> goodName nm = Inl q \<or> (tr \<noteq> [] \<and> returned (last tr) = Panicked q)"
  proof
    assume o: "out = Panicked q"
    show "goodName nm = Inl q \<or> (tr \<noteq> [] \<and> returned (last tr) = Panicked q)"
    proof (cases "goodName nm")
      case (Inl p)
      then show ?thesis using c o by auto
    next
      case (Inr n)
      then have "chain tr out" using c by auto
      then show ?thesis using chain_panicked[of tr q] o by simp
    qed
  qed
  have p2: "goodName nm = Inl q \<longrightarrow> out = Panicked q"
    using f by (auto simp: Fire_panic)
  have p3: "i < length tr \<and> returned (tr ! i) = Panicked q \<longrightarrow> out = Panicked q"
  proof
    assume a: "i < length tr \<and> returned (tr ! i) = Panicked q"
    then have "tr \<noteq> []" by auto
    then have "chain tr out" using c by blast
    then show "out = Panicked q" using chain_panic_last[of tr out i q] a by blast
  qed
  show ?thesis using f m iff p1 p2 p3 by simp
qed

theorem MustFire_panics_with_Fire_witness:
  "fst (snd (Fire failingManager ''app.run'' [])) = Returned (Some (Error ''boom'')) \<and>
   fst (snd (MustFire failingManager ''app.run'' [])) = Panicked (PanicErr (Error ''boom'')) \<and>
   snd (snd (MustFire failingManager ''app.run'' [])) = snd (snd (Fire failingManager ''app.run'' [])) \<and>
   fst (snd (Fire abortingManager ''app.run'' [])) = Returned None \<and>
   fst (snd (MustFire abortingManager ''app.run'' [])) = Returned () \<and>
   goodName ''9x'' = Inl InvalidName \<and>
   fst (snd (Fire failingManager ''9x'' [])) = Panicked InvalidName \<and>
   fst (snd (MustFire failingManager ''9x'' [])) = Panicked InvalidName \<and>
   snd (snd (Fire panickingManager ''e'' [])) = [(1, Panicked (ListenerPanic ''oops''), True)] \<and>
   fst (snd (Fire panickingManager ''e'' [])) = Panicked (ListenerPanic ''oops'') \<and>
   fst (snd (MustFire panickingManager ''e'' [])) = Panicked (ListenerPanic ''oops'') \<and>
   goodName ''e'' = Inr ''e'' \<and>
   returned (last (snd (snd (Fire panickingManager ''e'' [])))) = Panicked (ListenerPanic ''oops'')"
proof -
  have ge: "goodName ''e'' = Inr ''e''" by code_simp
  have a: "fst (snd (Fire failingManager ''app.run'' [])) = Returned (Some (Error ''boom''))"
    by code_simp
  have b: "fst (snd (Fire abortingManager ''app.run'' [])) = Returned None"
    by code_simp
  have g: "goodName ''9x'' = Inl InvalidName" by code_simp
  have t: "snd (snd (Fire panickingManager ''e'' [])) = [(1, Panicked (ListenerPanic ''oops''), True)]"
    by code_simp
  have t0: "0 < length (snd (snd (Fire panickingManager ''e'' []))) \<and>
            returned (snd (snd (Fire panickingManager ''e'' [])) ! 0) = Panicked (ListenerPanic ''oops'')"
    using t by (simp add: returned_def)
  from MustFire_panics_with_Fire[of failingManager "''app.run''" "[]" InvalidName 0] a
  have 1: "fst (snd (MustFire failingManager ''app.run'' [])) = Panicked (PanicErr (Error ''boom''))"
    and 2: "snd (snd (MustFire failingManager ''app.run'' [])) = snd (snd (Fire failingManager ''app.run'' []))"
    by simp_all
  from MustFire_panics_with_Fire[of abortingManager "''app.run''" "[]" InvalidName 0] b
  have 3: "fst (snd (MustFire abortingManager ''app.run'' [])) = Returned ()" by simp
  from MustFire_panics_with_Fire[of failingManager "''9x''" "[]" InvalidName 0] g
  have 4: "fst (snd (Fire failingManager ''9x'' [])) = Panicked InvalidName" by blast
  from MustFire_panics_with_Fire[of failingManager "''9x''" "[]" InvalidName 0] 4
  have 5: "fst (snd (MustFire failingManager ''9x'' [])) = Panicked InvalidName" by simp
  from MustFire_panics_with_Fire[of panickingManager "''e''" "[]" "ListenerPanic ''oops''" 0] t0
  have 6: "fst (snd (Fire panickingManager ''e'' [])) = Panicked (ListenerPanic ''oops'')" by blast
  from MustFire_panics_with_Fire[of panickingManager "''e''" "[]" "ListenerPanic ''oops''" 0] 6
  have 7: "fst (snd (MustFire panickingManager ''e'' [])) = Panicked (ListenerPanic ''oops'')" by simp
  from MustFire_panics_with_Fire[of panickingManager "''e''" "[]" "ListenerPanic ''oops''" 0] 6 ge
  have 8: "returned (last (snd (snd (Fire panickingManager ''e'' [])))) = Panicked (ListenerPanic ''oops'')"
    by auto
  show ?thesis using a b g ge t 1 2 3 4 5 6 7 8 by simp
qed

text \<open>
  The claim as stated fails in two places. At the empty name \<open>MustFire\<close> panics
  although \<open>Fire\<close> returns no error, since \<open>Fire\<close> itself panics on the name. At the
  valid name \<open>e\<close>, whose first listener panics, \<open>MustFire\<close> panics with the panic of
  the listener although \<open>Fire\<close> returns no error.
\<close>

theorem MustFire_invalid_name_counterexample:
  "fst (snd (MustFire (NewManager ''m'') '''' [])) = Panicked EmptyName \<and>
   fst (snd (Fire (NewManager ''m'') '''' [])) = Panicked EmptyName \<and>
   goodName ''e'' = Inr ''e'' \<and>
   fst (snd (MustFire panickingManager ''e'' [])) = Panicked (ListenerPanic ''oops'') \<and>
   fst (snd (Fire panickingManager ''e'' [])) = Panicked (ListenerPanic ''oops'')"
  by code_simp

lemma FireEvent_pool: "FireEvent em e = (em1, e1, out, tr) \<Longrightarrow> pool em1 = pool em"
  using FireEvent_props[of em e em1 e1 out tr] by (simp add: sameState_def)

text \<open>
  Claim C6. When the catalog of a manager (any manager a sequence of operations leads
  to) has an event under the fired name, \<open>Fire\<close> dispatches that event with
  \<open>FireEvent\<close> and keeps it, as the listeners left it, under the same name; the pool
  is untouched and the payload arguments play no part in the result. \<open>AddEvent\<close>
  stores an event under its validated name whatever was stored there, leaves the other
  names alone, and panics without storing when the name is not valid.
\<close>

theorem Fire_dispatches_catalog_event:
  "(em = run ops (NewManager x) \<and> events em nm = Some e \<longrightarrow>
      Fire em nm args =
        (case FireEvent em e of
           (em1, e1, out, tr) \<Rightarrow> (em1\<lparr>events := (events em1)(nm \<mapsto> e1)\<rparr>, out, tr)) \<and>
      pool (fst (Fire em nm args)) = pool em) \<and>
   (goodName (Name ev) = Inr n \<longrightarrow>
      AddEvent em2 ev = (em2\<lparr>events := (events em2)(n \<mapsto> ev)\<rparr>, None) \<and>
      GetEvent (fst (AddEvent em2 ev)) n = Some ev \<and>
      (\<forall>k. k \<noteq> n \<longrightarrow> GetEvent (fst (AddEvent em2 ev)) k = GetEvent em2 k)) \<and>
   (goodName (Name ev) = Inl p \<longrightarrow> AddEvent em2 ev = (em2, Some p))"
proof (intro conjI impI)
  assume a: "em = run ops (NewManager x) \<and> events em nm = Some e"
  then have em: "em = run ops (NewManager x)" and ev: "events em nm = Some e" by blast+
  have "wellFormed em" unfolding em by (rule wellFormed_reachable)
  then have g: "goodName nm = Inr nm" using ev by (simp add: wellFormed_def)
  obtain em1 e1 out tr where f: "FireEvent em e = (em1, e1, out, tr)" by (cases "FireEvent em e") auto
  show "Fire em nm args =
        (case FireEvent em e of
           (em1, e1, out, tr) \<Rightarrow> (em1\<lparr>events := (events em1)(nm \<mapsto> e1)\<rparr>, out, tr))"
    using Fire_catalog[OF g ev f, of args] f by simp
  show "pool (fst (Fire em nm args)) = pool em"
    using Fire_catalog[OF g ev f, of args] FireEvent_pool[OF f] by simp
next
  assume g: "goodName (Name ev) = Inr n"
  show "AddEvent em2 ev = (em2\<lparr>events := (events em2)(n \<mapsto> ev)\<rparr>, None)"
    using g by (simp add: AddEvent_def)
  show "GetEvent (fst (AddEvent em2 ev)) n = Some ev"
    using g by (simp add: AddEvent_def GetEvent_def)
  show "\<forall>k. k \<noteq> n \<longrightarrow> GetEvent (fst (AddEvent em2 ev)) k = GetEvent em2 k"
    using g by (simp add: AddEvent_def GetEvent_def)
next
  assume "goodName (Name ev) = Inl p"
  then show "AddEvent em2 ev = (em2, Some p)" by (simp add: AddEvent_def)
qed

theorem Fire_dispatches_catalog_event_witness:
  "events catalogManager ''evt'' = Some \<lparr>ename = ''evt'', payload = [''k'' \<mapsto> AInt 7], aborted = False\<rparr> \<and>
   snd (Fire catalogManager ''evt'' [[''a'' \<mapsto> AInt 1]]) = (Returned None, [(1, Returned None, False)]) \<and>
   pool (fst (Fire catalogManager ''evt'' [[''a'' \<mapsto> AInt 1]])) = pool catalogManager \<and>
   goodName (Name (basicEvent '' evt '')) = Inr ''evt'' \<and>
   GetEvent (fst (AddEvent catalogManager (basicEvent '' evt ''))) ''evt'' = Some (basicEvent '' evt '') \<and>
   goodName (Name (basicEvent ''1'')) = Inl InvalidName \<and>
   AddEvent catalogManager (basicEvent ''1'') = (catalogManager, Some InvalidName)"
proof -
  have g: "goodName ''evt'' = Inr ''evt''" by code_simp
  have g2: "goodName (Name (basicEvent '' evt '')) = Inr ''evt''" by code_simp
  have g3: "goodName (Name (basicEvent ''1'')) = Inl InvalidName" by code_simp
  have e: "events catalogManager ''evt'' =
             Some \<lparr>ename = ''evt'', payload = [''k'' \<mapsto> AInt 7], aborted = False\<rparr>"
    by (simp add: catalogManager_def run_def AddEvent_def On_def Name_def g NewManager_def Let_def
          split: option.splits)
  have s: "snd (Fire catalogManager ''evt'' [[''a'' \<mapsto> AInt 1]]) = (Returned None, [(1, Returned None, False)])"
    by code_simp
  note c = catalogManager_def
  from Fire_dispatches_catalog_event[of catalogManager
          "[OpAddEvent \<lparr>ename = ''evt'', payload = [''k'' \<mapsto> AInt 7], aborted = False\<rparr>,
            OpOn ''evt'' (Some (probeListener 1 ''a'')) 0]" "''m''" "''evt''"
          "\<lparr>ename = ''evt'', payload = [''k'' \<mapsto> AInt 7], aborted = False\<rparr>"
          "[[''a'' \<mapsto> AInt 1]]" "basicEvent '' evt ''" "''evt''" catalogManager InvalidName]
       c e s g2
  have 1: "pool (fst (Fire catalogManager ''evt'' [[''a'' \<mapsto> AInt 1]])) = pool catalogManager"
    and 2: "GetEvent (fst (AddEvent catalogManager (basicEvent '' evt ''))) ''evt'' = Some (basicEvent '' evt '')"
    by blast+
  from Fire_dispatches_catalog_event[of catalogManager
          "[]" "''m''" "''evt''" "basicEvent ''1''"
          "[]" "basicEvent ''1''" "''evt''" catalogManager InvalidName] g3
  have 3: "AddEvent catalogManager (basicEvent ''1'') = (catalogManager, Some InvalidName)"
    by blast
  show ?thesis using e s g2 g3 1 2 3 by simp
qed

text \<open>
  Claim C5, as amended. A name that fails validation makes \<open>Fire\<close> panic before it
  takes an event from the pool: the manager is as it was and nobody is called. When
  the name passes validation and the catalog has no event under the validated name,
  \<open>Fire\<close> takes an event from the pool, which is a zero event in every manager a
  sequence of operations leads to, so the event dispatched is a zero event with the
  name and the payload of this call and nothing else. When \<open>FireEvent\<close> returns, nil
  or an error, the event is reset and put back: the pool then starts with a zero event.
  When a listener panics, the panic leaves \<open>Fire\<close> and the event is neither reset nor
  put back. Either way the pool holds zero events only afterwards.
\<close>

theorem Fire_scratch_event_is_reset:
  "(goodName nm = Inl p \<longrightarrow> Fire em nm args = (em, Panicked p, [])) \<and>
   (em = run ops (NewManager x) \<and> goodName nm = Inr n \<and> events em n = None \<longrightarrow>
      Fire em nm args =
        (case FireEvent (em\<lparr>pool := tl (pool em)\<rparr>) (Fill None args (newBasicEvent\<lparr>ename := n\<rparr>)) of
           (em1, e2, Returned err, tr) \<Rightarrow>
             (em1\<lparr>pool := newBasicEvent # tl (pool em)\<rparr>, Returned err, tr)
         | (em1, e2, Panicked q, tr) \<Rightarrow> (em1, Panicked q, tr)) \<and>
      (fst (snd (Fire em nm args)) = Returned r \<longrightarrow>
         pool (fst (Fire em nm args)) = newBasicEvent # tl (pool em)) \<and>
      (fst (snd (Fire em nm args)) = Panicked q' \<longrightarrow>
         pool (fst (Fire em nm args)) = tl (pool em)) \<and>
      list_all (\<lambda>e. e = newBasicEvent) (pool (fst (Fire em nm args))))"
proof (intro conjI impI)
  assume "goodName nm = Inl p"
  then show "Fire em nm args = (em, Panicked p, [])" by (rule Fire_panic)
next
  assume a: "em = run ops (NewManager x) \<and> goodName nm = Inr n \<and> events em n = None"
  then have em: "em = run ops (NewManager x)" and g: "goodName nm = Inr n"
    and ev: "events em n = None" by blast+
  have w: "wellFormed em" unfolding em by (rule wellFormed_reachable)
  obtain e0 em0 where pg: "poolGet em = (e0, em0)" by (cases "poolGet em") auto
  have e0: "e0 = newBasicEvent" and em0: "em0 = em\<lparr>pool := tl (pool em)\<rparr>"
    using pg w by (auto simp: poolGet_def wellFormed_def split: list.splits)
  obtain em1 e2 out tr where
    f: "FireEvent em0 (Fill None args (e0\<lparr>ename := n\<rparr>)) = (em1, e2, out, tr)"
    by (cases "FireEvent em0 (Fill None args (e0\<lparr>ename := n\<rparr>))") auto
  have p1: "pool em1 = tl (pool em)" using FireEvent_pool[OF f] em0 by simp
  have l: "list_all (\<lambda>e. e = newBasicEvent) (tl (pool em))"
    using w by (cases "pool em") (simp_all add: wellFormed_def)
  have all: "Fire em nm args =
        (case FireEvent (em\<lparr>pool := tl (pool em)\<rparr>) (Fill None args (newBasicEvent\<lparr>ename := n\<rparr>)) of
           (em1, e2, Returned err, tr) \<Rightarrow>
             (em1\<lparr>pool := newBasicEvent # tl (pool em)\<rparr>, Returned err, tr)
         | (em1, e2, Panicked q, tr) \<Rightarrow> (em1, Panicked q, tr)) \<and>
      (fst (snd (Fire em nm args)) = Returned r \<longrightarrow>
         pool (fst (Fire em nm args)) = newBasicEvent # tl (pool em)) \<and>
      (fst (snd (Fire em nm args)) = Panicked q' \<longrightarrow>
         pool (fst (Fire em nm args)) = tl (pool em)) \<and>
      list_all (\<lambda>e. e = newBasicEvent) (pool (fst (Fire em nm args)))"
  proof (cases out)
    case (Returned err)
    have "Fire em nm args = (em1\<lparr>pool := newBasicEvent # tl (pool em)\<rparr>, Returned err, tr)"
      using Fire_scratch_returned[OF g ev pg, of args em1 e2 err tr] f Returned p1
      by (simp add: poolPut_def reset_new)
    then show ?thesis using f Returned l by (simp add: e0 em0)
  next
    case (Panicked q)
    have "Fire em nm args = (em1, Panicked q, tr)"
      using Fire_scratch_panicked[OF g ev pg, of args em1 e2 q tr] f Panicked by simp
    then show ?thesis using f Panicked l p1 by (simp add: e0 em0)
  qed
  show "Fire em nm args =
        (case FireEvent (em\<lparr>pool := tl (pool em)\<rparr>) (Fill None args (newBasicEvent\<lparr>ename := n\<rparr>)) of
           (em1, e2, Returned err, tr) \<Rightarrow>
             (em1\<lparr>pool := newBasicEvent # tl (pool em)\<rparr>, Returned err, tr)
         | (em1, e2, Panicked q, tr) \<Rightarrow> (em1, Panicked q, tr))"
    using all by blast
  show "pool (fst (Fire em nm args)) = newBasicEvent # tl (pool em)"
    if "fst (snd (Fire em nm args)) = Returned r" using all that by blast
  show "pool (fst (Fire em nm args)) = tl (pool em)"
    if "fst (snd (Fire em nm args)) = Panicked q'" using all that by blast
  show "list_all (\<lambda>e. e = newBasicEvent) (pool (fst (Fire em nm args)))"
    using all by blast
qed

theorem Fire_scratch_event_is_reset_witness:
  "goodName ''9x'' = Inl InvalidName \<and>
   Fire usedManager ''9x'' [] = (usedManager, Panicked InvalidName, []) \<and>
   goodName ''e2'' = Inr ''e2'' \<and> events usedManager ''e2'' = None \<and>
   length (pool usedManager) = 1 \<and>
   snd (Fire usedManager ''e2'' []) = (Returned None, [(2, Returned None, False)]) \<and>
   pool (fst (Fire usedManager ''e2'' [])) = [newBasicEvent] \<and>
   list_all (\<lambda>e. e = newBasicEvent) (pool (fst (Fire usedManager ''e2'' []))) \<and>
   goodName ''e3'' = Inr ''e3'' \<and> events usedManager ''e3'' = None \<and>
   snd (Fire usedManager ''e3'' [[''a'' \<mapsto> AInt 1]]) =
     (Panicked (ListenerPanic ''oops''), [(4, Panicked (ListenerPanic ''oops''), True)]) \<and>
   pool (fst (Fire usedManager ''e3'' [[''a'' \<mapsto> AInt 1]])) = []"
proof -
  have g0: "goodName ''9x'' = Inl InvalidName" by code_simp
  have g: "goodName ''e2'' = Inr ''e2''" by code_simp
  have e: "events usedManager ''e2'' = None" by code_simp
  have g3: "goodName ''e3'' = Inr ''e3''" by code_simp
  have e3: "events usedManager ''e3'' = None" by code_simp
  have l: "length (pool usedManager) = 1" by code_simp
  have s: "snd (Fire usedManager ''e2'' []) = (Returned None, [(2, Returned None, False)])"
    by code_simp
  have s3: "snd (Fire usedManager ''e3'' [[''a'' \<mapsto> AInt 1]]) =
     (Panicked (ListenerPanic ''oops''), [(4, Panicked (ListenerPanic ''oops''), True)])"
    by code_simp
  have t: "tl (pool usedManager) = []" using l by (cases "pool usedManager") simp_all
  have o2: "fst (snd (Fire usedManager ''e2'' [])) = Returned None" using s by simp
  have o3: "fst (snd (Fire usedManager ''e3'' [[''a'' \<mapsto> AInt 1]])) = Panicked (ListenerPanic ''oops'')"
    using s3 by simp
  note u = usedManager_def
  from Fire_scratch_event_is_reset[of "''9x''" InvalidName usedManager "[]"] g0
  have 1: "Fire usedManager ''9x'' [] = (usedManager, Panicked InvalidName, [])" by blast
  from Fire_scratch_event_is_reset[of "''e2''" InvalidName usedManager "[]"
         "[OpOn ''e'' (Some (failListener 1 ''boom'')) 0,
           OpOn ''e0'' (Some (abortListener 3)) 0,
           OpOn ''e2'' (Some (probeListener 2 ''a'')) 0,
           OpOn ''e3'' (Some (panicListener 4 ''oops'')) 0,
           OpFire ''e3'' [[''a'' \<mapsto> AInt 1]],
           OpFire ''e'' [[''a'' \<mapsto> AInt 1]],
           OpFire ''e0'' [[''a'' \<mapsto> AInt 1]]]" "''m''" "''e2''" None "ListenerPanic ''oops''"]
       u g e o2
  have 2: "pool (fst (Fire usedManager ''e2'' [])) = newBasicEvent # tl (pool usedManager) \<and>
        list_all (\<lambda>e. e = newBasicEvent) (pool (fst (Fire usedManager ''e2'' [])))"
    by blast
  from Fire_scratch_event_is_reset[of "''e3''" InvalidName usedManager "[[''a'' \<mapsto> AInt 1]]"
         "[OpOn ''e'' (Some (failListener 1 ''boom'')) 0,
           OpOn ''e0'' (Some (abortListener 3)) 0,
           OpOn ''e2'' (Some (probeListener 2 ''a'')) 0,
           OpOn ''e3'' (Some (panicListener 4 ''oops'')) 0,
           OpFire ''e3'' [[''a'' \<mapsto> AInt 1]],
           OpFire ''e'' [[''a'' \<mapsto> AInt 1]],
           OpFire ''e0'' [[''a'' \<mapsto> AInt 1]]]" "''m''" "''e3''" None "ListenerPanic ''oops''"]
       u g3 e3 o3
  have 3: "pool (fst (Fire usedManager ''e3'' [[''a'' \<mapsto> AInt 1]])) = tl (pool usedManager)"
    by blast
  show ?thesis using g0 g e g3 e3 l s s3 t 1 2 3 by simp
qed

text \<open>
  The claim as stated fails in three places. At the empty name there is no catalog
  event under the name, and \<open>Fire\<close> panics before it takes an event from the pool, so
  none is dispatched and none is put back. At the name \<open>" evt "\<close> there is no catalog
  event under the name as given, and \<open>Fire\<close> dispatches the catalog event of \<open>evt\<close>
  (the listener finds no key \<open>a\<close> in the payload), not a scratch event: the pool stays
  empty. At the name \<open>e\<close>, whose first listener panics, the scratch event leaves
  \<open>Fire\<close> on a path on which it is not put back: the pool stays empty.
\<close>

theorem Fire_invalid_name_counterexample:
  "events (NewManager ''m'') '''' = None \<and>
   snd (Fire (NewManager ''m'') '''' []) = (Panicked EmptyName, []) \<and>
   pool (fst (Fire (NewManager ''m'') '''' [])) = [] \<and>
   events catalogManager '' evt '' = None \<and>
   snd (Fire catalogManager '' evt '' [[''a'' \<mapsto> AInt 1]]) =
     (Returned None, [(1, Returned None, False)]) \<and>
   pool (fst (Fire catalogManager '' evt '' [[''a'' \<mapsto> AInt 1]])) = [] \<and>
   events panickingManager ''e'' = None \<and>
   snd (Fire panickingManager ''e'' []) =
     (Panicked (ListenerPanic ''oops''), [(1, Panicked (ListenerPanic ''oops''), True)]) \<and>
   pool (fst (Fire panickingManager ''e'' [])) = []"
  by code_simp

section \<open>The group pattern and the missing exact queue\<close>

text \<open>
  The pattern of a name that has one is the name cut before a dot, then the asterisk:
  the dot itself is not part of it.
\<close>

lemma lastIndexFrom_found:
  "0 \<le> lastIndexFrom s c n \<Longrightarrow> nat (lastIndexFrom s c n) < n \<and> s ! nat (lastIndexFrom s c n) = c"
  by (induction n) (auto simp: less_Suc_eq)

lemma groupName_cuts_the_dot:
  assumes "groupName nm = Some g"
  shows "\<exists>pos. 0 < pos \<and> pos < length nm \<and> nm ! pos = CHR ''.'' \<and> g = take pos nm @ ''*''"
proof -
  define p where "p = LastIndexByte nm CHR ''.''"
  from assms have p: "0 < p" "p < int (length nm)" and g: "g = take (nat p) nm @ ''*''"
    by (auto simp: groupName_def Let_def p_def Wildcard_def split: if_splits)
  have "nm ! nat p = CHR ''.''"
    using lastIndexFrom_found[of nm "CHR ''.''" "length nm"] p by (simp add: p_def LastIndexByte_def)
  then show ?thesis using p g by (intro exI[of _ "nat p"]) auto
qed

text \<open>
  Claim C1. The claim says that firing \<open>app.run\<close> calls the listeners registered under
  \<open>app.*\<close> once the listeners of \<open>app.run\<close> are done. \<open>FireEvent\<close> cuts the name
  before its last dot, so the pattern it looks up is \<open>app*\<close>, and for
  \<open>app.user.created\<close> it is \<open>app.user*\<close>: with one listener on \<open>app.run\<close> and one on
  \<open>app.*\<close>, firing \<open>app.run\<close> calls the first only.
\<close>

theorem FireEvent_group_pattern_drops_the_dot:
  "groupName ''app.run'' = Some ''app*'' \<and>
   groupName ''app.user.created'' = Some ''app.user*'' \<and>
   snd (snd (FireEvent
     (run [OpOn ''app.run'' (Some (nopListener 1)) 0, OpOn ''app.*'' (Some (nopListener 2)) 0]
        (NewManager ''m''))
     (basicEvent ''app.run''))) = (Returned None, [(1, Returned None, False)])"
  by code_simp

lemma FireEvent_no_exact_queue:
  "listeners em (Name e) = None \<Longrightarrow> FireEvent em e = (em, e, Returned None, [])"
  by (simp add: FireEvent_def)

text \<open>
  Claim C2. The claim says that a step without a queue is skipped and the later steps
  still run. \<open>FireEvent\<close> returns at once when the fired name has no queue of its own:
  with listeners on \<open>app.*\<close> and on \<open>app*\<close> and none on \<open>app.run\<close>, firing
  \<open>app.run\<close> calls nobody and returns nil. (The example has no listener on the bare
  wildcard: \<open>On\<close> refuses that name, which does not start with a letter.)
\<close>

theorem FireEvent_without_exact_queue_calls_nobody:
  "HasListeners (run [OpOn ''app.*'' (Some (nopListener 2)) 0, OpOn ''app*'' (Some (nopListener 3)) 0]
        (NewManager ''m'')) ''app.*'' \<and>
   HasListeners (run [OpOn ''app.*'' (Some (nopListener 2)) 0, OpOn ''app*'' (Some (nopListener 3)) 0]
        (NewManager ''m'')) ''app*'' \<and>
   snd (snd (FireEvent
     (run [OpOn ''app.*'' (Some (nopListener 2)) 0, OpOn ''app*'' (Some (nopListener 3)) 0]
        (NewManager ''m''))
     (basicEvent ''app.run''))) = (Returned None, []) \<and>
   snd (Fire
     (run [OpOn ''app.*'' (Some (nopListener 2)) 0, OpOn ''app*'' (Some (nopListener 3)) 0]
        (NewManager ''m''))
     ''app.run'' []) = (Returned None, []) \<and>
   snd (On (NewManager ''m'') ''*'' (Some (nopListener 1)) 0) = Some InvalidName"
  by code_simp

end
